theory Spec2Isabelle
  imports Complex_Main "HOL-Library.Sublist" "HOL-Library.Word"
begin

section \<open>Python and numpy primitives used by the generator and the loader\<close>

text \<open>
  Exceptions are values. Floating-point numbers are idealised as reals; parsing of the
  XML attributes (\<open>int(...)\<close>, \<open>float(...)\<close>) is excluded by the types of the records below,
  as the configuration is validated against the schema before it is used.
\<close>

datatype error = KeyError | ValueError | ZeroDivisionError | TypeError | OSError | WntrError

definition and_then :: "error + 'a \<Rightarrow> ('a \<Rightarrow> error + 'b) \<Rightarrow> error + 'b" where
  "and_then m f = (case m of Inl e \<Rightarrow> Inl e | Inr x \<Rightarrow> f x)"

text \<open>\<open>int(x)\<close> on a float truncates toward zero.\<close>

definition py_int :: "real \<Rightarrow> int" where
  "py_int x = (if 0 \<le> x then \<lfloor>x\<rfloor> else \<lceil>x\<rceil>)"

text \<open>
  The bounds \<open>[lo, hi)\<close> of the slice \<open>a[i:j]\<close> of a sequence of length \<open>n\<close>: a negative index
  counts from the end, both are clipped to the sequence, and an inverted slice is empty.
\<close>

definition slice_indices :: "nat \<Rightarrow> int \<Rightarrow> int \<Rightarrow> nat \<times> nat" where
  "slice_indices n i j =
     (let clip = (\<lambda>k. if k < 0 then max 0 (int n + k) else min (int n) k);
          lo = clip i;
          hi = max lo (clip j)
      in (nat lo, nat hi))"

definition in_slice :: "nat \<Rightarrow> int \<Rightarrow> int \<Rightarrow> nat \<Rightarrow> bool" where
  "in_slice n i j k = (fst (slice_indices n i j) \<le> k \<and> k < snd (slice_indices n i j))"

text \<open>\<open>np.arange(start, stop, step)\<close>: \<open>ceil((stop - start) / step)\<close> samples \<open>start + k * step\<close>.\<close>

definition np_arange :: "real \<Rightarrow> real \<Rightarrow> real \<Rightarrow> error + real list" where
  "np_arange a b s =
     (if s = 0 then Inl ZeroDivisionError
      else Inr (map (\<lambda>k. a + real k * s) [0..<nat \<lceil>(b - a) / s\<rceil>]))"

definition np_zeros :: "int \<Rightarrow> error + real list" where
  "np_zeros n = (if n < 0 then Inl ValueError else Inr (replicate (nat n) 0))"

text \<open>
  \<open>a[i:j] = vs\<close> for an array \<open>vs\<close>: the shapes must agree, except that an array of one
  element is broadcast over the slice.
\<close>

definition set_slice :: "real list \<Rightarrow> int \<Rightarrow> int \<Rightarrow> real list \<Rightarrow> error + real list" where
  "set_slice xs i j vs =
     (case slice_indices (length xs) i j of (lo, hi) \<Rightarrow>
        if length vs = hi - lo then Inr (take lo xs @ vs @ drop hi xs)
        else if length vs = 1 then Inr (take lo xs @ replicate (hi - lo) (hd vs) @ drop hi xs)
        else Inl ValueError)"

text \<open>\<open>a[i:j] = f(a[i:j])\<close> element by element: assignment of a scalar and the in-place
  operators with a scalar operand.\<close>

definition map_slice :: "(real \<Rightarrow> real) \<Rightarrow> real list \<Rightarrow> int \<Rightarrow> int \<Rightarrow> real list" where
  "map_slice f xs i j =
     (case slice_indices (length xs) i j of (lo, hi) \<Rightarrow>
        take lo xs @ map f (take (hi - lo) (drop lo xs)) @ drop hi xs)"

text \<open>\<open>a[i:j] += vs\<close> for an array \<open>vs\<close>, with the same shape rule as the assignment.\<close>

definition iadd_slice :: "real list \<Rightarrow> int \<Rightarrow> int \<Rightarrow> real list \<Rightarrow> error + real list" where
  "iadd_slice xs i j vs =
     (case slice_indices (length xs) i j of (lo, hi) \<Rightarrow>
        if length vs = hi - lo
        then Inr (take lo xs @ map2 (+) (take (hi - lo) (drop lo xs)) vs @ drop hi xs)
        else if length vs = 1
        then Inr (take lo xs @ map (\<lambda>x. x + hd vs) (take (hi - lo) (drop lo xs)) @ drop hi xs)
        else Inl ValueError)"

text \<open>\<open>np.interp(x, np.arange(0, len(fp)), fp)\<close>: piecewise linear, constant outside.\<close>

definition np_interp :: "real \<Rightarrow> real list \<Rightarrow> real" where
  "np_interp x fp =
     (if x \<le> 0 then fp ! 0
      else if real (length fp - 1) \<le> x then fp ! (length fp - 1)
      else let k = nat \<lfloor>x\<rfloor> in fp ! k + (x - real k) * (fp ! (k + 1) - fp ! k))"

text \<open>Decimal rendering of a natural number, as an f-string does it.\<close>

fun str_nat :: "nat \<Rightarrow> string" where
  "str_nat n =
     (if n < 10 then [char_of (48 + n)]
      else str_nat (n div 10) @ [char_of (48 + n mod 10)])"

declare str_nat.simps [simp del]

section \<open>LeakModel: \<open>SimulationJob.insert_leak\<close>\<close>

text \<open>
  A leak is the attribute dictionary of one \<open>Leak\<close> element. The optional attributes
  (\<open>peak\<close>, \<open>nodeId\<close>, \<open>pipeId\<close>) are options: \<open>None\<close> is a key absent from the dictionary.
\<close>

record leak_info =
  leak_type :: string
  diameter :: real
  i_start :: int
  i_end :: int
  i_peak :: "int option"
  nodeId :: "string option"
  pipeId :: "string option"

text \<open>
  The water network of the simulator library, reduced to what \<open>insert_leak\<close> reads and
  writes: the registries of node, link and pattern names, the time options, and the
  demands, leaks and pressure bounds attached to nodes. The library's operations are
  modelled by their effect on the registries; a name that is not registered raises.
\<close>

record wn =
  node_name_list :: "string list"
  link_name_list :: "string list"
  patterns :: "(string \<times> real list) list"
  pattern_timestep :: int
  duration :: int
  hydraulic_timestep :: int
  report_timestep :: int
  demand_model :: string
  pressure_bounds :: "(string \<times> real \<times> real) list"
  node_demands :: "(string \<times> real \<times> string) list"
  node_leaks :: "(string \<times> real \<times> real \<times> int \<times> int) list"

definition pattern_name_list :: "wn \<Rightarrow> string list" where
  "pattern_name_list w = map fst (patterns w)"

definition get_node :: "wn \<Rightarrow> string \<Rightarrow> error + string" where
  "get_node w name = (if name \<in> set (node_name_list w) then Inr name else Inl KeyError)"

definition add_junction :: "wn \<Rightarrow> string \<Rightarrow> wn" where
  "add_junction w name = w\<lparr>node_name_list := node_name_list w @ [name]\<rparr>"

definition add_pipe :: "wn \<Rightarrow> string \<Rightarrow> error + wn" where
  "add_pipe w name =
     (if name \<in> set (link_name_list w) then Inl WntrError
      else Inr (w\<lparr>link_name_list := link_name_list w @ [name]\<rparr>))"

definition split_pipe :: "wn \<Rightarrow> string \<Rightarrow> string \<Rightarrow> string \<Rightarrow> error + wn" where
  "split_pipe w pipe_name new_pipe_name new_junction_name =
     (if pipe_name \<notin> set (link_name_list w) \<or> new_pipe_name \<in> set (link_name_list w)
         \<or> new_junction_name \<in> set (node_name_list w)
      then Inl WntrError
      else Inr (w\<lparr>node_name_list := node_name_list w @ [new_junction_name],
                 link_name_list := link_name_list w @ [new_pipe_name]\<rparr>))"

text \<open>Lines 512 to 529: the demand pattern of an incipient leak, before resampling.\<close>

definition leak_ramp_up :: "real \<Rightarrow> int \<Rightarrow> int \<Rightarrow> error + real list" where
  "leak_ramp_up d start peak =
     (if peak = start then Inr []
      else let leak_radius_step = d / real_of_int (peak - start) / 2 in
        and_then (np_arange leak_radius_step (d / 2 + leak_radius_step * 0.5) leak_radius_step)
          (\<lambda>leak_radii.
             Inr (map (\<lambda>r. 0.75 * sqrt (2 / 1000) * 990.27 * pi * r ^ 2) leak_radii)))"

definition leak_demand_constant :: "real \<Rightarrow> real" where
  "leak_demand_constant d =
     (let leak_area = pi * (d / 2) ^ 2 in 0.75 * sqrt (2 / 1000) * 990.27 * leak_area)"

definition incipient_pattern :: "int \<Rightarrow> real \<Rightarrow> int \<Rightarrow> int \<Rightarrow> int \<Rightarrow> error + real list" where
  "incipient_pattern iterations d start peak stop =
     and_then (leak_ramp_up d start peak) (\<lambda>ramp.
     and_then (np_zeros iterations) (\<lambda>pattern.
     and_then (set_slice pattern start peak ramp) (\<lambda>pattern.
     Inr (map_slice (\<lambda>_. leak_demand_constant d) pattern peak stop))))"

text \<open>Lines 531 to 535: resampling when the pattern time step differs.\<close>

definition resample :: "int \<Rightarrow> int \<Rightarrow> int \<Rightarrow> real list \<Rightarrow> error + real list" where
  "resample pattern_step time_step iterations pattern =
     (if pattern_step \<noteq> time_step then
        if time_step = 0 then Inl ZeroDivisionError
        else
          let scaling_factor = real_of_int pattern_step / real_of_int time_step;
              stretched_max = real_of_int (iterations * pattern_step)
          in and_then (np_arange 0 stretched_max scaling_factor) (\<lambda>xs.
               if pattern = [] then Inl ValueError
               else Inr (map (\<lambda>x. np_interp x pattern) xs))
      else Inr pattern)"


text \<open>
  Lines 537 to 542: the first free pattern name. The loop ends because the decimal
  rendering is injective, so only finitely many candidates are taken.
\<close>

lemma str_nat_length_small: "n < 10 \<Longrightarrow> length (str_nat n) = 1"
  by (subst str_nat.simps) simp

lemma str_nat_nonempty: "str_nat n \<noteq> []"
  by (subst str_nat.simps) simp

lemma str_nat_length_big: "10 \<le> n \<Longrightarrow> 2 \<le> length (str_nat n)"
proof -
  assume a: "10 \<le> n"
  have "str_nat (n div 10) \<noteq> []" by (rule str_nat_nonempty)
  then have "1 \<le> length (str_nat (n div 10))" by (cases "str_nat (n div 10)") auto
  with a show ?thesis by (subst str_nat.simps) simp
qed

lemma digit_inj:
  assumes "a < 10" and "b < 10" and "char_of (48 + a) = (char_of (48 + b) :: char)"
  shows "a = (b::nat)"
proof -
  have "48 + a \<in> {0..<256}" and "48 + b \<in> {0..<256}" using assms by simp_all
  with assms(3) have "48 + a = 48 + b" by (meson inj_on_char_of_nat inj_onD)
  then show ?thesis by simp
qed

lemma str_nat_eqD: "str_nat m = str_nat n \<Longrightarrow> m = n"
proof (induction m arbitrary: n rule: str_nat.induct)
  case (1 m)
  show ?case
  proof (cases "m < 10")
    case True
    then have lm: "length (str_nat m) = 1" by (rule str_nat_length_small)
    have n10: "n < 10"
    proof (rule ccontr)
      assume "\<not> n < 10"
      then have "2 \<le> length (str_nat n)" using str_nat_length_big by simp
      with lm "1.prems" show False by simp
    qed
    have "str_nat m = [char_of (48 + m)]" using True by (subst str_nat.simps) simp
    moreover have "str_nat n = [char_of (48 + n)]" using n10 by (subst str_nat.simps) simp
    ultimately have "char_of (48 + m) = (char_of (48 + n) :: char)" using "1.prems" by simp
    with True n10 show ?thesis by (rule digit_inj)
  next
    case False
    then have lm: "2 \<le> length (str_nat m)" using str_nat_length_big by simp
    have n10: "\<not> n < 10"
    proof
      assume "n < 10"
      then have "length (str_nat n) = 1" by (rule str_nat_length_small)
      with lm "1.prems" show False by simp
    qed
    have em: "str_nat m = str_nat (m div 10) @ [char_of (48 + m mod 10)]"
      using False by (subst str_nat.simps) simp
    have en: "str_nat n = str_nat (n div 10) @ [char_of (48 + n mod 10)]"
      using n10 by (subst str_nat.simps) simp
    from em en "1.prems" have a: "str_nat (m div 10) = str_nat (n div 10)"
      and b: "char_of (48 + m mod 10) = (char_of (48 + n mod 10) :: char)" by simp_all
    from "1.IH" [OF False a] have "m div 10 = n div 10" .
    moreover from b have "m mod 10 = n mod 10" by (intro digit_inj) simp_all
    ultimately show ?thesis by (metis div_mult_mod_eq)
  qed
qed

lemma finite_taken_ids: "finite {k. base @ ''_'' @ str_nat k \<in> set names}"
proof -
  have "inj (\<lambda>k. base @ ''_'' @ str_nat k)"
    by (rule injI) (simp add: str_nat_eqD)
  then have "finite ((\<lambda>k. base @ ''_'' @ str_nat k) -` set names)"
    by (intro finite_vimageI) simp_all
  then show ?thesis by (simp add: vimage_def)
qed

definition taken_from :: "string list \<Rightarrow> string \<Rightarrow> nat \<Rightarrow> nat" where
  "taken_from names base i = card {k. i \<le> k \<and> base @ ''_'' @ str_nat k \<in> set names}"

lemma taken_from_step:
  "taken_from names base i =
     (if base @ ''_'' @ str_nat i \<in> set names then 1 else 0) + taken_from names base (Suc i)"
proof -
  let ?T = "\<lambda>i. {k. i \<le> k \<and> base @ ''_'' @ str_nat k \<in> set names}"
  have fin: "finite (?T j)" for j
    by (rule finite_subset [OF _ finite_taken_ids [of base names]]) auto
  show ?thesis
  proof (cases "base @ ''_'' @ str_nat i \<in> set names")
    case True
    then have "?T i = insert i (?T (Suc i))" by (auto simp: le_Suc_eq Suc_le_eq less_le)
    moreover have "i \<notin> ?T (Suc i)" by simp
    ultimately show ?thesis using True fin [of "Suc i"] by (simp add: taken_from_def)
  next
    case False
    then have "?T i = ?T (Suc i)"
      by (auto simp: Suc_le_eq less_le) 
    with False show ?thesis by (simp add: taken_from_def)
  qed
qed

function unique_pattern_name :: "string list \<Rightarrow> string \<Rightarrow> string \<Rightarrow> nat \<Rightarrow> string" where
  "unique_pattern_name names base pattern_name pattern_id =
     (if pattern_name \<in> set names
      then unique_pattern_name names base (base @ ''_'' @ str_nat pattern_id) (pattern_id + 1)
      else pattern_name)"
  by pat_completeness auto
termination
proof (relation "measure (\<lambda>(names, base, pattern_name, pattern_id).
    (if pattern_name \<in> set names then 1 else 0) + taken_from names base pattern_id)")
  show "wf (measure (\<lambda>(names, base, pattern_name, pattern_id).
    (if pattern_name \<in> set names then 1 else 0) + taken_from names base pattern_id))"
    by simp
next
  fix names :: "string list" and base pattern_name :: string and pattern_id :: nat
  assume "pattern_name \<in> set names"
  then show "((names, base, base @ ''_'' @ str_nat pattern_id, pattern_id + 1),
        (names, base, pattern_name, pattern_id))
       \<in> measure (\<lambda>(names, base, pattern_name, pattern_id).
    (if pattern_name \<in> set names then 1 else 0) + taken_from names base pattern_id)"
    using taken_from_step [of names base pattern_id] by simp
qed

declare unique_pattern_name.simps [simp del]

text \<open>\<open>SimulationJob.insert_leak\<close>: the returned flag, and the network as it is left.\<close>

definition resolve_leak_node :: "wn \<Rightarrow> leak_info \<Rightarrow> error + (string option \<times> wn)" where
  "resolve_leak_node w leak_info =
     (case nodeId leak_info of
        Some node \<Rightarrow>
          if leak_type leak_info = ''incipient'' then
            let leak_node_name = ''leak_node_'' @ node in
            if leak_node_name \<notin> set (node_name_list w) then
              and_then (get_node w node) (\<lambda>_.
              and_then (add_pipe (add_junction w leak_node_name)
                          (''leak_segment_'' @ leak_node_name)) (\<lambda>w'.
              Inr (Some leak_node_name, w')))
            else Inr (Some leak_node_name, w)
          else Inr (Some node, w)
      | None \<Rightarrow>
          (case pipeId leak_info of
             Some leak_pipe_name \<Rightarrow>
               let leak_node_name = ''leak_node_'' @ leak_pipe_name in
               if leak_node_name \<notin> set (node_name_list w) then
                 and_then (split_pipe w leak_pipe_name (''leak_segment_'' @ leak_pipe_name)
                             leak_node_name) (\<lambda>w'.
                 Inr (Some leak_node_name, w'))
               else Inr (Some leak_node_name, w)
           | None \<Rightarrow> Inr (None, w)))"

definition add_incipient :: "int \<Rightarrow> int \<Rightarrow> wn \<Rightarrow> string \<Rightarrow> leak_info \<Rightarrow> int \<Rightarrow> error + wn" where
  "add_incipient iterations time_step w leak_node_name leak_info peak =
     (let w1 = w\<lparr>pressure_bounds := pressure_bounds w @ [(leak_node_name, 100, 0)]\<rparr> in
      and_then (incipient_pattern iterations (diameter leak_info) (i_start leak_info) peak
                  (i_end leak_info)) (\<lambda>pattern.
      and_then (resample (pattern_timestep w1) time_step iterations pattern) (\<lambda>pattern.
      let base = ''leak_pattern_'' @ leak_node_name;
          pattern_name = unique_pattern_name (pattern_name_list w1) base base 1
      in Inr (w1\<lparr>patterns := patterns w1 @ [(pattern_name, pattern)],
                 node_demands := node_demands w1 @ [(leak_node_name, 1, pattern_name)]\<rparr>))))"

definition add_leak :: "int \<Rightarrow> wn \<Rightarrow> string \<Rightarrow> leak_info \<Rightarrow> wn" where
  "add_leak time_step w leak_node_name leak_info =
     (let leak_area = pi * (diameter leak_info / 2) ^ 2 in
      w\<lparr>node_leaks := node_leaks w @
          [(leak_node_name, 0.75, leak_area, i_start leak_info * time_step,
            i_end leak_info * time_step)]\<rparr>)"

definition insert_leak :: "int \<Rightarrow> int \<Rightarrow> wn \<Rightarrow> leak_info \<Rightarrow> error + (bool \<times> wn)" where
  "insert_leak iterations time_step w leak_info =
     (if leak_type leak_info = ''incipient'' \<and> i_peak leak_info = None then Inr (False, w)
      else
        and_then (resolve_leak_node w leak_info) (\<lambda>(resolved, w1).
        case resolved of
          None \<Rightarrow> Inr (False, w1)
        | Some leak_node_name \<Rightarrow>
            and_then (get_node w1 leak_node_name) (\<lambda>_.
            if leak_type leak_info = ''incipient'' then
              and_then (add_incipient iterations time_step w1 leak_node_name leak_info
                          (the (i_peak leak_info))) (\<lambda>w2. Inr (True, w2))
            else if leak_type leak_info = ''abrupt'' then
              Inr (True, add_leak time_step w1 leak_node_name leak_info)
            else Inr (False, w1))))"


section \<open>Selection: \<open>ScenarioGenerator.is_selected\<close>\<close>

fun is_selected :: "string list option \<Rightarrow> string \<Rightarrow> string option \<Rightarrow> bool" where
  "is_selected None scenario_name leak_config_name = True"
| "is_selected (Some selection) scenario_name None =
     list_ex (\<lambda>sel. prefix (scenario_name @ ''.'') sel) selection"
| "is_selected (Some selection) scenario_name (Some leak_config_name) =
     (if scenario_name @ ''.'' @ leak_config_name \<in> set selection
         \<or> scenario_name @ ''.*'' \<in> set selection
      then True else False)"

section \<open>SimulationJob\<close>

type_synonym path = "string list"

record sensor_mask =
  pressure :: "string set"
  flow :: "string set"
  demand :: "string set"

record scenario_config =
  name :: string
  network :: string
  iterations :: int
  timeStep :: int

record simulation_job =
  scenario_config :: scenario_config
  leaks :: "leak_info list"
  leak_config_name :: string
  sensor_mask :: sensor_mask
  results_path :: path
  memory_estimate :: real
  dtype :: string

text \<open>The loop of \<open>init\<close> over the leaks: it returns at the first leak that fails.\<close>

fun insert_leaks :: "int \<Rightarrow> int \<Rightarrow> wn \<Rightarrow> leak_info list \<Rightarrow> error + (bool \<times> wn)" where
  "insert_leaks its ts w [] = Inr (True, w)"
| "insert_leaks its ts w (leak # rest) =
     and_then (insert_leak its ts w leak) (\<lambda>(ok, w').
       if \<not> ok then Inr (False, w') else insert_leaks its ts w' rest)"

text \<open>\<open>SimulationJob.init\<close>; loading the network file is the simulator library's.\<close>

definition init :: "(string \<Rightarrow> error + wn) \<Rightarrow> simulation_job \<Rightarrow> error + (bool \<times> wn)" where
  "init load_network job =
     (let cfg = scenario_config job; its = iterations cfg; ts = timeStep cfg in
      and_then (load_network (network cfg)) (\<lambda>w.
        insert_leaks its ts
          (w\<lparr>demand_model := ''PDD'', duration := its * ts,
             hydraulic_timestep := ts, report_timestep := ts\<rparr>)
          (leaks job)))"

section \<open>MemoryBudget: \<open>Worker._reserve_memory\<close> and \<open>Worker._unreserve_memory\<close>\<close>

text \<open>
  The shared counter is a \<open>multiprocessing.Value('i', ...)\<close>, a signed 32-bit integer:
  a value stored into it is truncated to 32 bits.
\<close>

definition c_int :: "int \<Rightarrow> int" where
  "c_int v = sint (word_of_int v :: 32 word)"

definition reserve_memory :: "int \<Rightarrow> real \<Rightarrow> int \<times> bool" where
  "reserve_memory available memory =
     (let new_available_memory = available - py_int memory in
      if new_available_memory \<ge> 0 then (c_int new_available_memory, True)
      else (available, False))"

definition unreserve_memory :: "int \<Rightarrow> real \<Rightarrow> int" where
  "unreserve_memory available memory = c_int (available + py_int memory)"

text \<open>
  Sequences of reservations and releases: the state is the counter and the amounts that
  are reserved and not yet released. A release matches when its amount is outstanding;
  a sequence with a release that matches nothing is not a run.
\<close>

datatype mem_op = Reserve real | Release real

fun amount :: "mem_op \<Rightarrow> real" where
  "amount (Reserve m) = m"
| "amount (Release m) = m"

fun mem_step :: "int \<times> real list \<Rightarrow> mem_op \<Rightarrow> (int \<times> real list) option" where
  "mem_step (c, out) (Reserve m) =
     (case reserve_memory c m of
        (c', True) \<Rightarrow> Some (c', m # out)
      | (c', False) \<Rightarrow> Some (c', out))"
| "mem_step (c, out) (Release m) =
     (if m \<in> set out then Some (unreserve_memory c m, remove1 m out) else None)"

fun mem_run :: "int \<times> real list \<Rightarrow> mem_op list \<Rightarrow> (int \<times> real list) option" where
  "mem_run s [] = Some s"
| "mem_run s (x # xs) = (case mem_step s x of None \<Rightarrow> None | Some s' \<Rightarrow> mem_run s' xs)"

definition reserved_total :: "real list \<Rightarrow> int" where
  "reserved_total out = sum_list (map py_int out)"

section \<open>\<open>Worker.worker\<close>\<close>

text \<open>
  The state shared by the workers: the counter, and the number of broadcasts on the
  condition. \<open>wait_for\<close> returns once the reservation succeeds; a worker whose
  reservation fails stays in \<open>wait_for\<close> until a broadcast, which is the outcome
  \<open>Waiting\<close>. Running the simulator and writing the results are the library's, and can raise.
\<close>

record shared =
  available_memory :: int
  broadcasts :: nat

datatype outcome = Completed | InitFailed | Raised error | Waiting

definition worker ::
  "(string \<Rightarrow> error + wn) \<Rightarrow> (wn \<Rightarrow> error + 'r) \<Rightarrow> ('r \<Rightarrow> simulation_job \<Rightarrow> error + unit)
     \<Rightarrow> shared \<Rightarrow> simulation_job \<Rightarrow> outcome \<times> shared" where
  "worker load_network simulate save sh job =
     (case reserve_memory (available_memory sh) (memory_estimate job) of
        (_, False) \<Rightarrow> (Waiting, sh)
      | (v, True) \<Rightarrow>
          let sh1 = sh\<lparr>available_memory := v\<rparr> in
          (case init load_network job of
             Inl e \<Rightarrow> (Raised e, sh1)
           | Inr (False, _) \<Rightarrow> (InitFailed, sh1)
           | Inr (True, w) \<Rightarrow>
               (case simulate w of
                  Inl e \<Rightarrow> (Raised e, sh1)
                | Inr results \<Rightarrow>
                    (case save results job of
                       Inl e \<Rightarrow> (Raised e, sh1)
                     | Inr _ \<Rightarrow>
                         (Completed,
                          sh1\<lparr>available_memory :=
                                 unreserve_memory (available_memory sh1) (memory_estimate job),
                               broadcasts := broadcasts sh1 + 1\<rparr>)))))"

section \<open>SensorFaultModel: \<open>_apply_sensorfault\<close> and the fault loop of \<open>Scenario.get\<close>\<close>

text \<open>
  A column of measurements is a list of reals; a data frame maps the identifiers of its
  columns to them; the loaded data map the three sensor types to their frames. The
  random generator is numpy's: \<open>normal g loc scale size\<close> stands for \<open>g.normal(loc, scale,
  size)\<close>, and returns the draws and the generator's next state, or raises.
\<close>

record sensorfault =
  partId :: string
  sensorType :: string
  fault_start :: int
  fault_end :: int
  faultType :: string
  faultParam :: "real option"

type_synonym frame = "string \<rightharpoonup> real list"

type_synonym 'g normal = "'g \<Rightarrow> real \<Rightarrow> real \<Rightarrow> int \<Rightarrow> error + (real list \<times> 'g)"

text \<open>
  The result is the column, the generator and what was printed. A missing parameter
  reaches this function for \<open>stuckzero\<close> only (the caller skips the fault otherwise);
  arithmetic on \<open>None\<close> raises a type error.
\<close>

definition apply_sensorfault ::
  "'g normal \<Rightarrow> real list \<Rightarrow> int \<Rightarrow> int \<Rightarrow> string \<Rightarrow> real option \<Rightarrow> 'g
     \<Rightarrow> error + (real list \<times> 'g \<times> string list)" where
  "apply_sensorfault normal df start stop fault_type fault_param rng =
     (if fault_type = ''constant'' then
        (case fault_param of
           None \<Rightarrow> Inl TypeError
         | Some p \<Rightarrow> Inr (map_slice (\<lambda>_. p) df start stop, rng, []))
      else if fault_type = ''drift'' then
        (case fault_param of
           None \<Rightarrow> Inl TypeError
         | Some p \<Rightarrow>
             let step = map (\<lambda>k. real k + 1) [0..<nat (stop - start)] in
             and_then (iadd_slice df start stop (map (\<lambda>s. p * s) step)) (\<lambda>df'.
               Inr (df', rng, [])))
      else if fault_type = ''normal'' then
        (case fault_param of
           None \<Rightarrow> Inl TypeError
         | Some p \<Rightarrow>
             and_then (normal rng 1 p (stop - start)) (\<lambda>(draws, rng').
             and_then (iadd_slice df start stop draws) (\<lambda>df'.
               Inr (df', rng', []))))
      else if fault_type = ''percentage'' then
        (case fault_param of
           None \<Rightarrow> Inl TypeError
         | Some p \<Rightarrow> Inr (map_slice (\<lambda>x. x * p) df start stop, rng, []))
      else if fault_type = ''shift'' then
        (case fault_param of
           None \<Rightarrow> Inl TypeError
         | Some p \<Rightarrow> Inr (map_slice (\<lambda>x. x + p) df start stop, rng, []))
      else if fault_type = ''stuckzero'' then
        Inr (map_slice (\<lambda>_. 0) df start stop, rng, [])
      else
        Inr (df, rng,
             [''ScenarioLoader: Trying to apply invalid sensor fault type: '' @ fault_type]))"

text \<open>Lines 215 to 236: the loop over the faults of the configuration.\<close>

fun apply_faults ::
  "'g normal \<Rightarrow> (string \<rightharpoonup> frame) \<times> 'g \<times> string list \<Rightarrow> sensorfault list
     \<Rightarrow> error + ((string \<rightharpoonup> frame) \<times> 'g \<times> string list)" where
  "apply_faults normal (data, rng, out) [] = Inr (data, rng, out)"
| "apply_faults normal (data, rng, out) (config # rest) =
     (case data (sensorType config) of
        None \<Rightarrow> Inl KeyError
      | Some fr \<Rightarrow>
          (case fr (partId config) of
             None \<Rightarrow> apply_faults normal (data, rng, out) rest
           | Some column \<Rightarrow>
               if faultParam config = None \<and> faultType config \<noteq> ''stuckzero'' then
                 apply_faults normal
                   (data, rng,
                    out @ [''ScenarioLoader: Missing fault parameter for '' @ faultType config
                           @ '' fault on '' @ partId config @ ''! Skipping...''])
                   rest
               else
                 and_then (apply_sensorfault normal column (fault_start config)
                             (fault_end config) (faultType config) (faultParam config) rng)
                   (\<lambda>(column', rng', printed).
                      apply_faults normal
                        (data(sensorType config \<mapsto> fr(partId config \<mapsto> column')),
                         rng', out @ printed)
                        rest)))"


section \<open>Scheduler: \<open>ScenarioGenerator.create_job_list_and_write_configs\<close>\<close>

text \<open>
  The configuration tree: a scenario has its attributes and its collections of sensor,
  sensor-fault and leak configs, in the order of the file.
\<close>

record sensor_config =
  sensor_config_name :: string
  PressureSensors :: "string list"
  FlowSensors :: "string list"
  DemandSensors :: "string list"

record leak_config =
  config_name :: string
  config_leaks :: "leak_info list"

datatype config_collection =
  SensorConfigs "sensor_config list"
  | SensorfaultConfigs "string list"
  | LeakConfigs "leak_config list"

record scenario =
  attrib :: scenario_config
  children :: "config_collection list"

text \<open>The generator's parameters; \<open>memory_available\<close> is \<open>self.available_memory\<close> in kB.\<close>

record generator =
  force_regenerate :: bool
  selection :: "string list option"
  collection_path :: path
  n_threads :: int
  memory_available :: real
  output_dtype :: string

text \<open>
  The file system is the set of the paths that exist; a path is the list of its
  components, and the names of scenarios and configs are single components. The contents
  of the written files, and with them the warning of \<open>write_xml_warn_if_changed\<close>, are
  left out.
\<close>

definition rmtree :: "path \<Rightarrow> path set \<Rightarrow> path set" where
  "rmtree p fs = {q \<in> fs. \<not> prefix p q}"

definition makedirs :: "path \<Rightarrow> path set \<Rightarrow> path set" where
  "makedirs p fs = fs \<union> (set (prefixes p) - {[]})"

definition write_file :: "path \<Rightarrow> path set \<Rightarrow> path set" where
  "write_file p fs = insert p fs"

definition write_topology :: "path \<Rightarrow> path set \<Rightarrow> path set" where
  "write_topology p fs =
     write_file (p @ [''topology.xml'']) (if p \<notin> fs then makedirs p fs else fs)"

definition write_config :: "string \<Rightarrow> path \<Rightarrow> path set \<Rightarrow> path set" where
  "write_config cname p fs =
     write_file (p @ [cname @ ''.xml'']) (if p \<notin> fs then makedirs p fs else fs)"

fun write_config_collection :: "string list \<Rightarrow> path \<Rightarrow> path set \<Rightarrow> path set" where
  "write_config_collection [] p fs = fs"
| "write_config_collection (cname # rest) p fs =
     write_config_collection rest p (write_config cname p fs)"

text \<open>\<open>create_sensor_masks\<close>, for one scenario.\<close>

definition sensor_mask_of :: "scenario \<Rightarrow> sensor_mask" where
  "sensor_mask_of s =
     (let configs = concat (map (\<lambda>c. case c of SensorConfigs xs \<Rightarrow> xs | _ \<Rightarrow> []) (children s))
      in \<lparr>pressure = set (concat (map PressureSensors configs)),
          flow = set (concat (map FlowSensors configs)),
          demand = set (concat (map DemandSensors configs))\<rparr>)"

text \<open>\<open>estimate_wn_memory\<close>, from the network and the size of its file in bytes.\<close>

definition estimate_wn_memory :: "wn \<Rightarrow> nat \<Rightarrow> int \<Rightarrow> real" where
  "estimate_wn_memory w size_bytes its =
     (let filesize = size_bytes div 1000;
          n_nodes = length (node_name_list w);
          n_links = length (link_name_list w)
      in 0.15 * real_of_int its * real (n_nodes + n_links) + 40 * real (n_nodes + n_links)
         + real filesize)"

text \<open>Lines 202 to 234: the loop over the leak configs of one collection.\<close>

fun leak_configs_loop ::
  "generator \<Rightarrow> scenario \<Rightarrow> real \<Rightarrow> path set \<times> simulation_job list \<Rightarrow> leak_config list
     \<Rightarrow> path set \<times> simulation_job list" where
  "leak_configs_loop gen s estimated_memory (fs, jobs) [] = (fs, jobs)"
| "leak_configs_loop gen s estimated_memory (fs, jobs) (lc # rest) =
     (let scenario_name = name (attrib s);
          measurements_path = collection_path gen @ [scenario_name, ''measurements'', config_name lc];
          leak_config_path = collection_path gen @ [scenario_name, ''leaks''];
          fs1 = (if force_regenerate gen
                    \<and> is_selected (selection gen) scenario_name (Some (config_name lc))
                 then rmtree measurements_path fs else fs)
      in if \<not> is_selected (selection gen) scenario_name (Some (config_name lc))
         then leak_configs_loop gen s estimated_memory (fs1, jobs) rest
         else if measurements_path \<in> fs1
         then leak_configs_loop gen s estimated_memory (fs1, jobs) rest
         else leak_configs_loop gen s estimated_memory
                (write_config (config_name lc) leak_config_path fs1,
                 jobs @ [\<lparr>scenario_config = attrib s, leaks = config_leaks lc,
                          leak_config_name = config_name lc,
                          sensor_mask = sensor_mask_of s,
                          results_path = measurements_path,
                          memory_estimate = estimated_memory,
                          dtype = output_dtype gen\<rparr>])
                rest)"

text \<open>Lines 196 to 201: the loop over the collections of one scenario, and its body.\<close>

fun process_collection ::
  "generator \<Rightarrow> scenario \<Rightarrow> real \<Rightarrow> path set \<times> simulation_job list \<Rightarrow> config_collection
     \<Rightarrow> path set \<times> simulation_job list" where
  "process_collection gen s estimated_memory (fs, jobs) (SensorConfigs configs) =
     (write_config_collection (map sensor_config_name configs)
        (collection_path gen @ [name (attrib s), ''sensors'']) fs, jobs)"
| "process_collection gen s estimated_memory (fs, jobs) (SensorfaultConfigs configs) =
     (write_config_collection configs
        (collection_path gen @ [name (attrib s), ''sensorfaults'']) fs, jobs)"
| "process_collection gen s estimated_memory (fs, jobs) (LeakConfigs configs) =
     leak_configs_loop gen s estimated_memory (fs, jobs) configs"

fun collections_loop ::
  "generator \<Rightarrow> scenario \<Rightarrow> real \<Rightarrow> path set \<times> simulation_job list \<Rightarrow> config_collection list
     \<Rightarrow> path set \<times> simulation_job list" where
  "collections_loop gen s estimated_memory st [] = st"
| "collections_loop gen s estimated_memory st (c # rest) =
     collections_loop gen s estimated_memory (process_collection gen s estimated_memory st c) rest"

text \<open>
  Lines 161 to 234: the loop over the scenarios. The state is the file system, the job
  list and the lowest estimate so far. Loading a network is the simulator library's and
  can raise; \<open>getsize\<close> is the size of the network file.
\<close>

fun scenarios_loop ::
  "generator \<Rightarrow> (string \<Rightarrow> error + wn) \<Rightarrow> (string \<Rightarrow> nat)
     \<Rightarrow> path set \<times> simulation_job list \<times> real \<Rightarrow> scenario list
     \<Rightarrow> error + (path set \<times> simulation_job list \<times> real)" where
  "scenarios_loop gen load_network getsize (fs, jobs, lowest) [] = Inr (fs, jobs, lowest)"
| "scenarios_loop gen load_network getsize (fs, jobs, lowest) (s # rest) =
     (let scenario_name = name (attrib s);
          scenario_path = collection_path gen @ [scenario_name];
          fs1 = (if force_regenerate gen \<and> is_selected (selection gen) scenario_name (Some ''*'')
                 then rmtree scenario_path fs else fs)
      in if \<not> is_selected (selection gen) scenario_name None
         then scenarios_loop gen load_network getsize (fs1, jobs, lowest) rest
         else
           and_then (load_network (network (attrib s))) (\<lambda>w.
             let fs2 = write_topology scenario_path fs1;
                 estimated_memory =
                   estimate_wn_memory w (getsize (network (attrib s))) (iterations (attrib s));
                 lowest' = (if estimated_memory < lowest then estimated_memory else lowest)
             in if estimated_memory > memory_available gen
                then scenarios_loop gen load_network getsize (fs2, jobs, lowest') rest
                else
                  (case collections_loop gen s estimated_memory (fs2, jobs) (children s) of
                     (fs3, jobs') \<Rightarrow>
                       scenarios_loop gen load_network getsize (fs3, jobs', lowest') rest)))"

text \<open>
  The whole function: the file system and the job list it leaves, and the number of
  threads after the clamp of lines 236 to 240.
\<close>

definition create_job_list_and_write_configs ::
  "generator \<Rightarrow> (string \<Rightarrow> error + wn) \<Rightarrow> (string \<Rightarrow> nat) \<Rightarrow> scenario list \<Rightarrow> path set
     \<Rightarrow> error + (path set \<times> simulation_job list \<times> int)" where
  "create_job_list_and_write_configs gen load_network getsize scenarios fs =
     and_then (scenarios_loop gen load_network getsize (fs, [], 10 ^ 12) scenarios)
       (\<lambda>(fs', jobs, lowest_estimated_memory).
          if lowest_estimated_memory = 0 then Inl ZeroDivisionError
          else
            let practical_n_threads = \<lfloor>memory_available gen / lowest_estimated_memory\<rfloor>
            in Inr (fs', jobs,
                    if practical_n_threads < n_threads gen then practical_n_threads
                    else n_threads gen))"

section \<open>Example inputs\<close>

definition net_one_node :: wn where
  "net_one_node =
     \<lparr>node_name_list = [''n1''], link_name_list = [], patterns = [], pattern_timestep = 3600,
      duration = 0, hydraulic_timestep = 0, report_timestep = 0, demand_model = ''DD'',
      pressure_bounds = [], node_demands = [], node_leaks = []\<rparr>"

definition leak_no_peak :: leak_info where
  "leak_no_peak =
     \<lparr>leak_type = ''incipient'', diameter = 0.01, i_start = 0, i_end = 20, i_peak = None,
      nodeId = Some ''n1'', pipeId = None\<rparr>"

definition leak_abrupt :: leak_info where
  "leak_abrupt =
     \<lparr>leak_type = ''abrupt'', diameter = 0.01, i_start = 0, i_end = 20, i_peak = None,
      nodeId = Some ''n1'', pipeId = None\<rparr>"

definition job_with :: "leak_info \<Rightarrow> simulation_job" where
  "job_with leak =
     \<lparr>scenario_config = \<lparr>name = ''A'', network = ''net.inp'', iterations = 100, timeStep = 60\<rparr>,
      leaks = [leak], leak_config_name = ''L1'',
      sensor_mask = \<lparr>pressure = {}, flow = {}, demand = {}\<rparr>,
      results_path = [''out'', ''A'', ''measurements'', ''L1''],
      memory_estimate = 60, dtype = ''float16''\<rparr>"

section \<open>Selection matching\<close>

lemma dot_split:
  assumes "CHR ''.'' \<notin> set A" and "S @ CHR ''.'' # L = A @ CHR ''.'' # M"
  shows "(S = A \<and> L = M) \<or> (\<exists>S'. S = A @ CHR ''.'' # S' \<and> M = S' @ CHR ''.'' # L)"
  using assms
  by (auto simp: append_eq_append_conv2 append_eq_Cons_conv Cons_eq_append_conv)

lemma sel_wild:
  assumes a: "CHR ''.'' \<notin> set A"
  shows "is_selected (Some [A @ ''.*'']) S (Some L) \<longleftrightarrow> S = A"
proof
  assume "is_selected (Some [A @ ''.*'']) S (Some L)"
  then have "S @ CHR ''.'' # L = A @ CHR ''.'' # ''*''
      \<or> S @ CHR ''.'' # ''*'' = A @ CHR ''.'' # ''*''"
    by (simp split: if_splits)
  then show "S = A"
  proof
    assume "S @ CHR ''.'' # L = A @ CHR ''.'' # ''*''"
    from dot_split [OF a this] show ?thesis by (auto simp: Cons_eq_append_conv)
  next
    assume "S @ CHR ''.'' # ''*'' = A @ CHR ''.'' # ''*''"
    from dot_split [OF a this] show ?thesis by (auto simp: Cons_eq_append_conv)
  qed
next
  assume "S = A" then show "is_selected (Some [A @ ''.*'']) S (Some L)" by simp
qed

lemma sel_exact:
  assumes a: "CHR ''.'' \<notin> set A" and l: "CHR ''.'' \<notin> set L1" and s: "L1 \<noteq> ''*''"
  shows "is_selected (Some [A @ ''.'' @ L1]) S (Some L) \<longleftrightarrow> S = A \<and> L = L1"
proof
  assume "is_selected (Some [A @ ''.'' @ L1]) S (Some L)"
  then have "S @ CHR ''.'' # L = A @ CHR ''.'' # L1
      \<or> S @ CHR ''.'' # ''*'' = A @ CHR ''.'' # L1"
    by (simp split: if_splits)
  then show "S = A \<and> L = L1"
  proof
    assume "S @ CHR ''.'' # L = A @ CHR ''.'' # L1"
    from dot_split [OF a this] l show ?thesis by auto
  next
    assume "S @ CHR ''.'' # ''*'' = A @ CHR ''.'' # L1"
    from dot_split [OF a this] l s show ?thesis by auto
  qed
next
  assume "S = A \<and> L = L1"
  then show "is_selected (Some [A @ ''.'' @ L1]) S (Some L)" by simp
qed

text \<open>
  C4. Without a selection list everything is selected. With a list, the pair of scenario
  \<open>S\<close> and leak config \<open>L\<close> is selected exactly when the list holds \<open>S.L\<close> or \<open>S.*\<close>. For
  names without a dot, the list \<open>[A.*]\<close> selects every leak config of \<open>A\<close> and none of
  another scenario, and \<open>[A.L1]\<close> selects the leak config \<open>L1\<close> of \<open>A\<close> and nothing else.
\<close>

theorem is_selected_matching:
  "is_selected None S L'
   \<and> (is_selected (Some sel) S (Some L)
        \<longleftrightarrow> S @ ''.'' @ L \<in> set sel \<or> S @ ''.*'' \<in> set sel)
   \<and> (CHR ''.'' \<notin> set A \<longrightarrow> (is_selected (Some [A @ ''.*'']) S (Some L) \<longleftrightarrow> S = A))
   \<and> (CHR ''.'' \<notin> set A \<and> CHR ''.'' \<notin> set L1 \<and> L1 \<noteq> ''*''
        \<longrightarrow> (is_selected (Some [A @ ''.'' @ L1]) S (Some L) \<longleftrightarrow> S = A \<and> L = L1))"
proof (intro conjI impI)
  show "is_selected None S L'" by simp
  show "is_selected (Some sel) S (Some L)
      \<longleftrightarrow> S @ ''.'' @ L \<in> set sel \<or> S @ ''.*'' \<in> set sel" by simp
  show "is_selected (Some [A @ ''.*'']) S (Some L) \<longleftrightarrow> S = A" if "CHR ''.'' \<notin> set A"
    using that by (rule sel_wild)
  show "is_selected (Some [A @ ''.'' @ L1]) S (Some L) \<longleftrightarrow> S = A \<and> L = L1"
    if "CHR ''.'' \<notin> set A \<and> CHR ''.'' \<notin> set L1 \<and> L1 \<noteq> ''*''"
    using that by (intro sel_exact) simp_all
qed

theorem is_selected_matching_witness:
  "is_selected None ''B'' (Some ''L2'')
   \<and> is_selected (Some [''A.*'']) ''A'' (Some ''L2'')
   \<and> \<not> is_selected (Some [''A.*'']) ''B'' (Some ''L2'')
   \<and> is_selected (Some [''A.L1'']) ''A'' (Some ''L1'')
   \<and> \<not> is_selected (Some [''A.L1'']) ''A'' (Some ''L2'')
   \<and> \<not> is_selected (Some [''A.L1'']) ''B'' (Some ''L1'')"
  using is_selected_matching [of "''B''" "Some ''L2''" "[]" "''L2''" "''A''" "''L1''"]
    is_selected_matching [of "''A''" "None" "[]" "''L2''" "''A''" "''L1''"]
    is_selected_matching [of "''A''" "None" "[]" "''L1''" "''A''" "''L1''"]
    is_selected_matching [of "''B''" "None" "[]" "''L1''" "''A''" "''L1''"]
  by simp

section \<open>The memory budget\<close>

lemma c_int_id: "0 \<le> v \<Longrightarrow> v < 2 ^ 31 \<Longrightarrow> c_int v = v"
  unfolding c_int_def by (simp add: int_word_sint)

lemma reserve_spec:
  assumes "0 \<le> m" "0 \<le> v" "v < 2 ^ 31"
  shows "reserve_memory v m = (if 0 \<le> v - py_int m then (v - py_int m, True) else (v, False))"
proof -
  have "0 \<le> py_int m" using assms(1) by (simp add: py_int_def)
  then show ?thesis using assms by (simp add: reserve_memory_def Let_def c_int_id)
qed

lemma sum_remove1:
  "m \<in> set out \<Longrightarrow> reserved_total out = py_int m + reserved_total (remove1 m out)"
  unfolding reserved_total_def by (induction out) auto

lemma reserved_nonneg: "\<forall>m\<in>set out. 0 \<le> m \<Longrightarrow> 0 \<le> reserved_total out"
  unfolding reserved_total_def by (induction out) (auto simp: py_int_def)

definition mem_inv :: "int \<Rightarrow> int \<times> real list \<Rightarrow> bool" where
  "mem_inv B s =
     (case s of (c, out) \<Rightarrow> 0 \<le> c \<and> c + reserved_total out = B \<and> (\<forall>m\<in>set out. 0 \<le> m))"

lemma mem_step_inv:
  assumes "B < 2 ^ 31" "mem_inv B s" "0 \<le> amount x" "mem_step s x = Some s'"
  shows "mem_inv B s'"
proof -
  obtain c out where s: "s = (c, out)" by (cases s)
  from assms(2) s have c0: "0 \<le> c" and eq: "c + reserved_total out = B"
    and pos: "\<forall>m\<in>set out. 0 \<le> m"
    by (simp_all add: mem_inv_def)
  from reserved_nonneg [OF pos] eq assms(1) have cB: "c < 2 ^ 31" by simp
  show ?thesis
  proof (cases x)
    case (Reserve m)
    with assms(3) have m0: "0 \<le> m" by simp
    show ?thesis using assms(4) s Reserve c0 eq pos m0 reserve_spec [OF m0 c0 cB]
      by (auto simp: mem_inv_def reserved_total_def split: if_splits)
  next
    case (Release m)
    with assms(4) s have mem: "m \<in> set out"
      and s': "s' = (unreserve_memory c m, remove1 m out)"
      by (auto split: if_splits)
    from pos mem have m0: "0 \<le> py_int m" by (auto simp: py_int_def)
    have tot: "reserved_total out = py_int m + reserved_total (remove1 m out)"
      by (rule sum_remove1 [OF mem])
    have pos': "\<forall>k\<in>set (remove1 m out). 0 \<le> k" using pos by (meson notin_set_remove1)
    from reserved_nonneg [OF pos'] tot eq assms(1) c0 m0
    have "0 \<le> c + py_int m" "c + py_int m < 2 ^ 31" by simp_all
    then have "unreserve_memory c m = c + py_int m"
      by (simp add: unreserve_memory_def c_int_id)
    then show ?thesis using s' tot eq c0 m0 pos' by (simp add: mem_inv_def)
  qed
qed

lemma mem_run_inv:
  "B < 2 ^ 31 \<Longrightarrow> mem_inv B s \<Longrightarrow> \<forall>x\<in>set ops. 0 \<le> amount x
     \<Longrightarrow> mem_run s ops = Some s' \<Longrightarrow> mem_inv B s'"
proof (induction ops arbitrary: s)
  case Nil
  then show ?case by simp
next
  case (Cons x xs)
  from Cons.prems(4) obtain s1 where st: "mem_step s x = Some s1"
    and run: "mem_run s1 xs = Some s'"
    by (auto split: option.splits)
  from mem_step_inv [OF Cons.prems(1,2) _ st] Cons.prems(3) have "mem_inv B s1" by simp
  from Cons.IH [OF Cons.prems(1) this _ run] Cons.prems(3) show ?case by simp
qed

text \<open>
  C2. On a counter \<open>v\<close> within the range of the shared integer, a reservation of a
  non-negative amount succeeds, and takes the amount off the counter, exactly when the
  counter minus the amount is not negative; otherwise it returns false and leaves the
  counter as it was. Hence after every sequence of reservations and matching releases of
  non-negative amounts that starts from the budget \<open>B\<close>, the counter is not negative, and
  the outstanding reservations add up to \<open>B\<close> minus the counter, so to at most \<open>B\<close>.
\<close>

theorem memory_budget_invariant:
  "(0 \<le> m \<and> 0 \<le> v \<and> v < 2 ^ 31
      \<longrightarrow> reserve_memory v m
           = (if 0 \<le> v - py_int m then (v - py_int m, True) else (v, False)))
   \<and> (0 \<le> B \<and> B < 2 ^ 31 \<and> (\<forall>x\<in>set ops. 0 \<le> amount x)
        \<and> mem_run (B, []) ops = Some (c, out)
      \<longrightarrow> 0 \<le> c \<and> reserved_total out \<le> B \<and> c + reserved_total out = B)"
proof (intro conjI impI)
  assume "0 \<le> m \<and> 0 \<le> v \<and> v < 2 ^ 31"
  then show "reserve_memory v m
      = (if 0 \<le> v - py_int m then (v - py_int m, True) else (v, False))"
    by (intro reserve_spec) simp_all
next
  assume a: "0 \<le> B \<and> B < 2 ^ 31 \<and> (\<forall>x\<in>set ops. 0 \<le> amount x)
      \<and> mem_run (B, []) ops = Some (c, out)"
  have "mem_inv B (B, [])" using a by (simp add: mem_inv_def reserved_total_def)
  with a have inv: "mem_inv B (c, out)" using mem_run_inv by blast
  then show "0 \<le> c" and "c + reserved_total out = B" by (simp_all add: mem_inv_def)
  with inv show "reserved_total out \<le> B" by simp
qed

lemma mem_run_example:
  "mem_run (100, []) [Reserve 60, Reserve 60, Release 60, Reserve 30] = Some (70, [30])"
  by (simp add: reserve_memory_def unreserve_memory_def py_int_def c_int_id)

theorem memory_budget_invariant_witness:
  "reserve_memory 100 60 = (40, True) \<and> reserve_memory 40 60 = (40, False)
   \<and> mem_run (100, []) [Reserve 60, Reserve 60, Release 60, Reserve 30] = Some (70, [30])
   \<and> (0::int) \<le> 70 \<and> reserved_total [30] \<le> 100 \<and> 70 + reserved_total [30] = 100"
  using memory_budget_invariant [of 60 100 100 "[Reserve 60, Reserve 60, Release 60, Reserve 30]" 70 "[30]"]
    memory_budget_invariant [of 60 40 100 "[]" 100 "[]"]
    mem_run_example
  by (simp add: py_int_def)

section \<open>Release of the reservation by the worker\<close>

text \<open>
  C1. A job whose initialisation fails after its reservation succeeded returns from the
  worker without releasing the reservation and without a broadcast: with a budget of
  100 and an estimate of 60 the counter stays at 40. The same job with a leak that can
  be inserted completes, and the counter is back at 100 after one broadcast.
\<close>

theorem worker_keeps_reservation_on_failed_init:
  "worker (\<lambda>_. Inr net_one_node) (\<lambda>_. Inr ()) (\<lambda>_ _. Inr ())
       \<lparr>available_memory = 100, broadcasts = 0\<rparr> (job_with leak_no_peak)
     = (InitFailed, \<lparr>available_memory = 40, broadcasts = 0\<rparr>)
   \<and> worker (\<lambda>_. Inr net_one_node) (\<lambda>_. Inr ()) (\<lambda>_ _. Inr ())
       \<lparr>available_memory = 100, broadcasts = 0\<rparr> (job_with leak_abrupt)
     = (Completed, \<lparr>available_memory = 100, broadcasts = 1\<rparr>)"
  by (simp add: worker_def job_with_def leak_no_peak_def leak_abrupt_def net_one_node_def
      reserve_memory_def unreserve_memory_def py_int_def c_int_id init_def and_then_def
      insert_leak_def resolve_leak_node_def get_node_def)

section \<open>The demand pattern of an incipient leak\<close>




lemma slice_indices_inside:
  "0 \<le> i \<Longrightarrow> i \<le> j \<Longrightarrow> j \<le> int n \<Longrightarrow> slice_indices n i j = (nat i, nat j)"
  by (simp add: slice_indices_def Let_def max_def min_def)

lemma slice_indices_le: "fst (slice_indices n i j) \<le> snd (slice_indices n i j) \<and> snd (slice_indices n i j) \<le> n"
  by (auto simp add: slice_indices_def Let_def max_def min_def)









section \<open>Failure of a leak insertion\<close>




lemma length_map_slice: "length (map_slice f xs i j) = length xs"
proof -
  obtain lo hi where si: "slice_indices (length xs) i j = (lo, hi)" by fastforce
  with slice_indices_le [of "length xs" i j] have "lo \<le> hi" "hi \<le> length xs" by simp_all
  then show ?thesis by (simp add: map_slice_def si)
qed










section \<open>Effect of a sensor fault\<close>

lemma nth_splice:
  assumes "lo \<le> hi" "hi \<le> length xs" "length ys = hi - lo" "k < length xs"
  shows "(take lo xs @ ys @ drop hi xs) ! k
     = (if k < lo then xs ! k else if k < hi then ys ! (k - lo) else xs ! k)"
proof -
  have l1: "length (take lo xs) = lo" using assms by simp
  consider "k < lo" | "lo \<le> k" "k < hi" | "hi \<le> k" by linarith
  then show ?thesis
  proof cases
    case 1
    then show ?thesis by (simp add: nth_append l1 del: length_take)
  next
    case 2
    then have a: "k - lo < length ys" using assms by linarith
    have "(take lo xs @ ys @ drop hi xs) ! k = (ys @ drop hi xs) ! (k - lo)"
      using 2 l1 by (simp add: nth_append del: length_take)
    also have "\<dots> = ys ! (k - lo)" using a by (simp add: nth_append)
    finally show ?thesis using 2 by simp
  next
    case 3
    then have a: "\<not> k - lo < length ys" and b: "hi + (k - lo - length ys) = k"
      using assms by linarith+
    have "(take lo xs @ ys @ drop hi xs) ! k = (ys @ drop hi xs) ! (k - lo)"
      using 3 assms l1 by (simp add: nth_append del: length_take)
    also have "\<dots> = drop hi xs ! (k - lo - length ys)" using a by (simp add: nth_append)
    also have "\<dots> = xs ! k" using assms b by simp
    finally show ?thesis using 3 assms by simp
  qed
qed

lemma length_splice:
  assumes "lo \<le> hi" "hi \<le> length xs" "length ys = hi - lo"
  shows "length (take lo xs @ ys @ drop hi xs) = length xs"
  using assms by simp


lemma min_window: "lo \<le> hi \<Longrightarrow> hi \<le> (n::nat) \<Longrightarrow> min (n - lo) (hi - lo) = hi - lo"
  by arith

lemma map_slice_nth:
  "map_slice f xs i j
     = map (\<lambda>k. if in_slice (length xs) i j k then f (xs ! k) else xs ! k) [0..<length xs]"
proof -
  obtain lo hi where si: "slice_indices (length xs) i j = (lo, hi)" by fastforce
  with slice_indices_le [of "length xs" i j] have le: "lo \<le> hi" "hi \<le> length xs" by simp_all
  let ?ys = "map f (take (hi - lo) (drop lo xs))"
  have ly: "length ?ys = hi - lo" using le by simp
  have ms: "map_slice f xs i j = take lo xs @ ?ys @ drop hi xs" by (simp add: map_slice_def si)
  show ?thesis
  proof (rule nth_equalityI)
    show "length (map_slice f xs i j)
        = length (map (\<lambda>k. if in_slice (length xs) i j k then f (xs ! k) else xs ! k)
                    [0..<length xs])"
      by (simp add: length_map_slice)
  next
    fix k assume "k < length (map_slice f xs i j)"
    then have k: "k < length xs" by (simp add: length_map_slice)
    have el: "?ys ! (k - lo) = f (xs ! k)" if "lo \<le> k" "k < hi"
    proof -
      have "k - lo < hi - lo" "k - lo < length xs - lo" "lo + (k - lo) = k"
        using that le by linarith+
      then show ?thesis using le by simp
    qed
    have "map_slice f xs i j ! k
        = (if k < lo then xs ! k else if k < hi then ?ys ! (k - lo) else xs ! k)"
      unfolding ms by (rule nth_splice [OF le ly k])
    also have "\<dots> = (if lo \<le> k \<and> k < hi then f (xs ! k) else xs ! k)"
      using el by auto
    finally show "map_slice f xs i j ! k
        = map (\<lambda>k. if in_slice (length xs) i j k then f (xs ! k) else xs ! k)
            [0..<length xs] ! k"
      using k by (simp add: in_slice_def si)
  qed
qed

lemma iadd_slice_window:
  assumes si: "slice_indices (length xs) i j = (lo, hi)" and len: "length vs = hi - lo"
  shows "iadd_slice xs i j vs
     = Inr (map (\<lambda>k. if lo \<le> k \<and> k < hi then xs ! k + vs ! (k - lo) else xs ! k)
              [0..<length xs])"
proof -
  from si slice_indices_le [of "length xs" i j] have le: "lo \<le> hi" "hi \<le> length xs"
    by simp_all
  let ?ys = "map2 (+) (take (hi - lo) (drop lo xs)) vs"
  have ly: "length ?ys = hi - lo" using len min_window [OF le] by simp
  have "take lo xs @ ?ys @ drop hi xs
      = map (\<lambda>k. if lo \<le> k \<and> k < hi then xs ! k + vs ! (k - lo) else xs ! k)
          [0..<length xs]" (is "?l = ?r")
  proof (rule nth_equalityI)
    show "length ?l = length ?r" unfolding length_splice [OF le ly] by simp
  next
    fix k assume "k < length ?l"
    then have k: "k < length xs" unfolding length_splice [OF le ly] .
    have el: "?ys ! (k - lo) = xs ! k + vs ! (k - lo)" if "lo \<le> k" "k < hi"
    proof -
      have "k - lo < hi - lo" "k - lo < length xs - lo" "lo + (k - lo) = k"
        using that le by linarith+
      then show ?thesis using le len by simp
    qed
    have "?l ! k = (if k < lo then xs ! k else if k < hi then ?ys ! (k - lo) else xs ! k)"
      by (rule nth_splice [OF le ly k])
    also have "\<dots> = (if lo \<le> k \<and> k < hi then xs ! k + vs ! (k - lo) else xs ! k)"
      using el by auto
    finally show "?l ! k = ?r ! k" using k by simp
  qed
  then show ?thesis by (simp add: iadd_slice_def si len)
qed

lemma iadd_slice_nth:
  assumes "0 \<le> i" "i \<le> j" "j \<le> int (length xs)" "length vs = nat (j - i)"
  shows "iadd_slice xs i j vs
     = Inr (map (\<lambda>k. if nat i \<le> k \<and> k < nat j then xs ! k + vs ! (k - nat i) else xs ! k)
              [0..<length xs])"
proof -
  have si: "slice_indices (length xs) i j = (nat i, nat j)"
    using assms by (intro slice_indices_inside) simp_all
  have len: "length vs = nat j - nat i" using assms by (simp add: nat_diff_distrib)
  show ?thesis by (rule iadd_slice_window [OF si len])
qed

lemma in_slice_inside:
  "0 \<le> i \<Longrightarrow> i \<le> j \<Longrightarrow> j \<le> int n \<Longrightarrow> in_slice n i j k \<longleftrightarrow> nat i \<le> k \<and> k < nat j"
  by (simp add: in_slice_def slice_indices_inside)

definition known_fault_types :: "string set" where
  "known_fault_types =
     {''constant'', ''drift'', ''normal'', ''percentage'', ''shift'', ''stuckzero''}"

lemma drift_effect:
  assumes "0 \<le> a" "a \<le> b" "b \<le> int (length df)"
  shows "apply_sensorfault normal df a b ''drift'' (Some p) g
     = Inr (map (\<lambda>k. if nat a \<le> k \<and> k < nat b
                      then df ! k + p * real (k - nat a + 1) else df ! k)
              [0..<length df], g, [])"
proof -
  let ?vs = "map (\<lambda>s. p * s) (map (\<lambda>k. real k + 1) [0..<nat (b - a)])"
  have "length ?vs = nat (b - a)" by simp
  from iadd_slice_nth [OF assms this]
  have "iadd_slice df a b ?vs
     = Inr (map (\<lambda>k. if nat a \<le> k \<and> k < nat b then df ! k + ?vs ! (k - nat a) else df ! k)
              [0..<length df])" .
  also have "map (\<lambda>k. if nat a \<le> k \<and> k < nat b then df ! k + ?vs ! (k - nat a) else df ! k)
              [0..<length df]
      = map (\<lambda>k. if nat a \<le> k \<and> k < nat b
                      then df ! k + p * real (k - nat a + 1) else df ! k)
              [0..<length df]"
    using assms by (intro map_cong refl) (auto simp: nat_diff_distrib)
  finally show ?thesis by (simp add: apply_sensorfault_def and_then_def)
qed

text \<open>
  C6. On the window \<open>[start, end)\<close> of a column, constant writes the parameter, percentage
  multiplies by it, shift adds it, and stuckzero writes 0; drift, on a window that lies
  within the column, adds the parameter times \<open>k\<close> to the \<open>k\<close>-th sample of the window,
  counted from 1. The samples outside the window keep their values. A fault type
  that is none of the six is reported and the column is returned as it was. A fault on
  an identifier that is not a column of the loaded data is skipped: the loop goes on
  with the data, the generator and the output as they were.
\<close>

theorem apply_sensorfault_effect:
  "apply_sensorfault normal df a b ''constant'' (Some p) g
     = Inr (map (\<lambda>k. if in_slice (length df) a b k then p else df ! k) [0..<length df], g, [])
   \<and> apply_sensorfault normal df a b ''percentage'' (Some p) g
     = Inr (map (\<lambda>k. if in_slice (length df) a b k then df ! k * p else df ! k)
              [0..<length df], g, [])
   \<and> apply_sensorfault normal df a b ''shift'' (Some p) g
     = Inr (map (\<lambda>k. if in_slice (length df) a b k then df ! k + p else df ! k)
              [0..<length df], g, [])
   \<and> apply_sensorfault normal df a b ''stuckzero'' q g
     = Inr (map (\<lambda>k. if in_slice (length df) a b k then 0 else df ! k) [0..<length df], g, [])
   \<and> (0 \<le> a \<and> a \<le> b \<and> b \<le> int (length df) \<longrightarrow>
        (in_slice (length df) a b k \<longleftrightarrow> nat a \<le> k \<and> k < nat b)
        \<and> apply_sensorfault normal df a b ''drift'' (Some p) g
          = Inr (map (\<lambda>k. if nat a \<le> k \<and> k < nat b
                           then df ! k + p * real (k - nat a + 1) else df ! k)
                   [0..<length df], g, []))
   \<and> (t \<notin> known_fault_types \<longrightarrow>
        apply_sensorfault normal df a b t q g
          = Inr (df, g, [''ScenarioLoader: Trying to apply invalid sensor fault type: '' @ t]))
   \<and> (data (sensorType f) = Some fr \<and> fr (partId f) = None \<longrightarrow>
        apply_faults normal (data, g, out) (f # rest) = apply_faults normal (data, g, out) rest)"
proof (intro conjI impI)
  show "apply_sensorfault normal df a b ''constant'' (Some p) g
     = Inr (map (\<lambda>k. if in_slice (length df) a b k then p else df ! k) [0..<length df], g, [])"
    by (simp add: apply_sensorfault_def map_slice_nth)
  show "apply_sensorfault normal df a b ''percentage'' (Some p) g
     = Inr (map (\<lambda>k. if in_slice (length df) a b k then df ! k * p else df ! k)
              [0..<length df], g, [])"
    by (simp add: apply_sensorfault_def map_slice_nth)
  show "apply_sensorfault normal df a b ''shift'' (Some p) g
     = Inr (map (\<lambda>k. if in_slice (length df) a b k then df ! k + p else df ! k)
              [0..<length df], g, [])"
    by (simp add: apply_sensorfault_def map_slice_nth)
  show "apply_sensorfault normal df a b ''stuckzero'' q g
     = Inr (map (\<lambda>k. if in_slice (length df) a b k then 0 else df ! k) [0..<length df], g, [])"
    by (simp add: apply_sensorfault_def map_slice_nth)
next
  assume w: "0 \<le> a \<and> a \<le> b \<and> b \<le> int (length df)"
  then show "in_slice (length df) a b k \<longleftrightarrow> nat a \<le> k \<and> k < nat b"
    by (intro in_slice_inside) simp_all
  from w show "apply_sensorfault normal df a b ''drift'' (Some p) g
          = Inr (map (\<lambda>k. if nat a \<le> k \<and> k < nat b
                           then df ! k + p * real (k - nat a + 1) else df ! k)
                   [0..<length df], g, [])"
    by (intro drift_effect) simp_all
next
  assume "t \<notin> known_fault_types"
  then show "apply_sensorfault normal df a b t q g
          = Inr (df, g, [''ScenarioLoader: Trying to apply invalid sensor fault type: '' @ t])"
    by (simp add: apply_sensorfault_def known_fault_types_def)
next
  assume "data (sensorType f) = Some fr \<and> fr (partId f) = None"
  then show "apply_faults normal (data, g, out) (f # rest)
      = apply_faults normal (data, g, out) rest"
    by simp
qed

definition no_draws :: "unit normal" where
  "no_draws g loc scale n = Inl ValueError"

theorem apply_sensorfault_effect_witness:
  "(0::int) \<le> 1 \<and> (1::int) \<le> 3 \<and> 3 \<le> int (length [1, 2, 3, 4::real])
   \<and> apply_sensorfault no_draws [1, 2, 3, 4] 1 3 ''drift'' (Some 10) ()
       = Inr ([1, 12, 23, 4], (), [])
   \<and> apply_sensorfault no_draws [1, 2, 3, 4] 1 3 ''constant'' (Some 10) ()
       = Inr ([1, 10, 10, 4], (), [])
   \<and> ''bogus'' \<notin> known_fault_types
   \<and> apply_sensorfault no_draws [1, 2, 3, 4] 1 3 ''bogus'' (Some 10) ()
       = Inr ([1, 2, 3, 4], (),
              [''ScenarioLoader: Trying to apply invalid sensor fault type: bogus''])
   \<and> apply_faults no_draws ([''pressure'' \<mapsto> [''n1'' \<mapsto> [1, 2, 3, 4]]], (), [])
         [\<lparr>partId = ''n7'', sensorType = ''pressure'', fault_start = 1, fault_end = 3,
            faultType = ''constant'', faultParam = Some 10\<rparr>]
       = Inr ([''pressure'' \<mapsto> [''n1'' \<mapsto> [1, 2, 3, 4]]], (), [])"
  using apply_sensorfault_effect [where normal = no_draws and df = "[1, 2, 3, 4]" and a = 1
      and b = 3 and p = 10 and g = "()" and q = "Some 10" and k = 2 and t = "''bogus''"
      and f = "\<lparr>partId = ''n7'', sensorType = ''pressure'', fault_start = 1, fault_end = 3,
         faultType = ''constant'', faultParam = Some 10\<rparr>"
      and data = "[''pressure'' \<mapsto> [''n1'' \<mapsto> [1, 2, 3, 4]]]"
      and fr = "[''n1'' \<mapsto> [1, 2, 3, 4]]" and out = "[]" and rest = "[]"]
  by (simp add: known_fault_types_def in_slice_def slice_indices_def Let_def upt_rec)

section \<open>Reproducible random faults\<close>





section \<open>Job-list creation: what is deleted, what is skipped, how many workers\<close>

text \<open>
  The measurement artifacts of the collection are the paths
  \<open>collection_path / S / measurements / ...\<close>. The lemmas below follow such a path through
  the three nested loops: the writes of topology and configs never touch it, so it
  exists afterwards exactly when it existed before and no \<open>rmtree\<close> of the run covered it.
\<close>

lemma rmtree_iff: "q \<in> rmtree p fs \<longleftrightarrow> q \<in> fs \<and> \<not> prefix p q"
  by (simp add: rmtree_def)

lemma write_config_meas:
  assumes "d \<noteq> ''measurements''"
  shows "coll @ S # ''measurements'' # r \<in> write_config c (coll @ [S', d]) fs
     \<longleftrightarrow> coll @ S # ''measurements'' # r \<in> fs"
  using assms by (auto simp: write_config_def write_file_def makedirs_def)

lemma write_config_collection_meas:
  assumes "d \<noteq> ''measurements''"
  shows "coll @ S # ''measurements'' # r \<in> write_config_collection cs (coll @ [S', d]) fs
     \<longleftrightarrow> coll @ S # ''measurements'' # r \<in> fs"
  using assms by (induction cs arbitrary: fs) (simp_all add: write_config_meas)

lemma write_topology_meas:
  "coll @ S # ''measurements'' # r \<in> write_topology (coll @ [S']) fs
     \<longleftrightarrow> coll @ S # ''measurements'' # r \<in> fs"
  by (auto simp: write_topology_def write_file_def makedirs_def)

definition leak_configs_of :: "config_collection list \<Rightarrow> leak_config list" where
  "leak_configs_of cs = concat (map (\<lambda>c. case c of LeakConfigs xs \<Rightarrow> xs | _ \<Rightarrow> []) cs)"

definition measurements_path :: "generator \<Rightarrow> scenario \<Rightarrow> leak_config \<Rightarrow> path" where
  "measurements_path gen s lc =
     collection_path gen @ [name (attrib s), ''measurements'', config_name lc]"

definition pair_selected :: "generator \<Rightarrow> scenario \<Rightarrow> leak_config \<Rightarrow> bool" where
  "pair_selected gen s lc =
     is_selected (selection gen) (name (attrib s)) (Some (config_name lc))"

lemma leak_configs_loop_fs:
  assumes "leak_configs_loop gen s est (fs, jobs) lcs = (fs', jobs')"
    and "q = collection_path gen @ S # ''measurements'' # r"
  shows "q \<in> fs' \<longleftrightarrow> q \<in> fs \<and> \<not> (force_regenerate gen
     \<and> (\<exists>lc\<in>set lcs. pair_selected gen s lc \<and> prefix (measurements_path gen s lc) q))"
  using assms
proof (induction lcs arbitrary: fs jobs)
  case Nil
  then show ?case by simp
next
  case (Cons lc rest)
  let ?mp = "measurements_path gen s lc"
  let ?fs1 = "if force_regenerate gen \<and> pair_selected gen s lc then rmtree ?mp fs else fs"
  have q1: "q \<in> ?fs1 \<longleftrightarrow> q \<in> fs \<and> \<not> (force_regenerate gen \<and> pair_selected gen s lc \<and> prefix ?mp q)"
    by (auto simp: rmtree_iff)
  have wq: "q \<in> write_config (config_name lc) (collection_path gen @ [name (attrib s), ''leaks'']) ?fs1
      \<longleftrightarrow> q \<in> ?fs1"
    unfolding Cons.prems(2) by (rule write_config_meas) simp
  consider (skip) "leak_configs_loop gen s est (?fs1, jobs) rest = (fs', jobs')"
    | (job) j where "leak_configs_loop gen s est
        (write_config (config_name lc) (collection_path gen @ [name (attrib s), ''leaks'']) ?fs1,
         jobs @ [j]) rest = (fs', jobs')"
    using Cons.prems(1)
    by (auto simp: Let_def pair_selected_def measurements_path_def split: if_splits)
  then show ?case
  proof cases
    case skip
    from Cons.IH [OF skip Cons.prems(2)] q1 show ?thesis by auto
  next
    case job
    from Cons.IH [OF job Cons.prems(2)] wq q1 show ?thesis by auto
  qed
qed


lemma measurements_path_meas:
  "measurements_path gen s lc
     = collection_path gen @ name (attrib s) # ''measurements'' # [config_name lc]"
  by (simp add: measurements_path_def)

definition job_props ::
  "generator \<Rightarrow> scenario \<Rightarrow> real \<Rightarrow> leak_config list \<Rightarrow> path set \<Rightarrow> simulation_job \<Rightarrow> bool" where
  "job_props gen s est lcs fs job =
     (memory_estimate job = est
      \<and> (\<exists>lc\<in>set lcs. pair_selected gen s lc \<and> results_path job = measurements_path gen s lc)
      \<and> (\<not> force_regenerate gen \<longrightarrow> results_path job \<notin> fs))"

lemma leak_configs_loop_jobs:
  assumes "leak_configs_loop gen s est (fs, jobs) lcs = (fs', jobs')"
  shows "\<exists>new. jobs' = jobs @ new \<and> (\<forall>job\<in>set new. job_props gen s est lcs fs job)"
  using assms
proof (induction lcs arbitrary: fs jobs)
  case Nil
  then show ?case by simp
next
  case (Cons lc rest)
  let ?mp = "measurements_path gen s lc"
  let ?fs1 = "if force_regenerate gen \<and> pair_selected gen s lc then rmtree ?mp fs else fs"
  let ?fs2 = "write_config (config_name lc) (collection_path gen @ [name (attrib s), ''leaks'']) ?fs1"
  let ?j = "\<lparr>scenario_config = attrib s, leaks = config_leaks lc,
            leak_config_name = config_name lc, sensor_mask = sensor_mask_of s,
            results_path = ?mp, memory_estimate = est, dtype = output_dtype gen\<rparr>"
  have weaken: "job_props gen s est (lc # rest) fs job"
    if "job_props gen s est rest fs0 job" "\<not> force_regenerate gen \<Longrightarrow> fs0 = ?fs1 \<or> fs0 = ?fs2"
    for job fs0
  proof -
    from that(1) obtain lc' where lc': "lc' \<in> set rest" "pair_selected gen s lc'"
      "results_path job = measurements_path gen s lc'" and me: "memory_estimate job = est"
      and nf: "\<not> force_regenerate gen \<longrightarrow> results_path job \<notin> fs0"
      by (auto simp: job_props_def)
    have "results_path job \<notin> fs" if nforce: "\<not> force_regenerate gen"
    proof -
      have a: "results_path job \<notin> fs0" using nf nforce by simp
      have "results_path job \<in> ?fs2 \<longleftrightarrow> results_path job \<in> ?fs1"
        unfolding lc'(3) measurements_path_meas by (rule write_config_meas) simp
      with a \<open>\<not> force_regenerate gen \<Longrightarrow> fs0 = ?fs1 \<or> fs0 = ?fs2\<close> nforce
      show ?thesis by auto
    qed
    with lc' me show ?thesis by (auto simp: job_props_def)
  qed
  consider (skip) "leak_configs_loop gen s est (?fs1, jobs) rest = (fs', jobs')"
    | (job) "pair_selected gen s lc" "?mp \<notin> ?fs1"
        "leak_configs_loop gen s est (?fs2, jobs @ [?j]) rest = (fs', jobs')"
    using Cons.prems(1)
    by (auto simp: Let_def pair_selected_def measurements_path_def split: if_splits)
  then show ?case
  proof cases
    case skip
    from Cons.IH [OF skip] obtain new where n: "jobs' = jobs @ new"
      "\<forall>job\<in>set new. job_props gen s est rest ?fs1 job" by blast
    from n(2) have "\<forall>job\<in>set new. job_props gen s est (lc # rest) fs job"
      by (auto intro: weaken)
    with n(1) show ?thesis by blast
  next
    case job
    from Cons.IH [OF job(3)] obtain new where n: "jobs' = (jobs @ [?j]) @ new"
      "\<forall>job\<in>set new. job_props gen s est rest ?fs2 job" by blast
    from n(2) have a: "\<forall>job\<in>set new. job_props gen s est (lc # rest) fs job"
      by (auto intro: weaken)
    have "job_props gen s est (lc # rest) fs ?j"
      using job(1,2) by (auto simp: job_props_def)
    with a n(1) have "jobs' = jobs @ (?j # new)
        \<and> (\<forall>job\<in>set (?j # new). job_props gen s est (lc # rest) fs job)" by simp
    then show ?thesis by blast
  qed
qed

lemma leak_configs_of_Cons:
  "leak_configs_of (c # cs)
     = (case c of LeakConfigs xs \<Rightarrow> xs | _ \<Rightarrow> []) @ leak_configs_of cs"
  by (simp add: leak_configs_of_def)

lemma process_collection_fs:
  assumes step: "process_collection gen s est (fs, jobs) c = (fs1, jobs1)"
    and q: "q = collection_path gen @ S # ''measurements'' # r"
  shows "q \<in> fs1 \<longleftrightarrow> q \<in> fs \<and> \<not> (force_regenerate gen
     \<and> (\<exists>lc\<in>set (case c of LeakConfigs xs \<Rightarrow> xs | _ \<Rightarrow> []).
           pair_selected gen s lc \<and> prefix (measurements_path gen s lc) q))"
proof (cases c)
  case (SensorConfigs configs)
  with step have "fs1 = write_config_collection (map sensor_config_name configs)
              (collection_path gen @ [name (attrib s), ''sensors'']) fs" by simp
  then show ?thesis unfolding q SensorConfigs
    by (simp add: write_config_collection_meas)
next
  case (SensorfaultConfigs configs)
  with step have "fs1 = write_config_collection configs
              (collection_path gen @ [name (attrib s), ''sensorfaults'']) fs" by simp
  then show ?thesis unfolding q SensorfaultConfigs
    by (simp add: write_config_collection_meas)
next
  case (LeakConfigs configs)
  with step have "leak_configs_loop gen s est (fs, jobs) configs = (fs1, jobs1)" by simp
  from leak_configs_loop_fs [OF this q] LeakConfigs show ?thesis by simp
qed

lemma collections_loop_fs:
  assumes "collections_loop gen s est (fs, jobs) cs = (fs', jobs')"
    and "q = collection_path gen @ S # ''measurements'' # r"
  shows "q \<in> fs' \<longleftrightarrow> q \<in> fs \<and> \<not> (force_regenerate gen
     \<and> (\<exists>lc\<in>set (leak_configs_of cs).
           pair_selected gen s lc \<and> prefix (measurements_path gen s lc) q))"
  using assms
proof (induction cs arbitrary: fs jobs)
  case Nil
  then show ?case by (simp add: leak_configs_of_def)
next
  case (Cons c rest)
  obtain fs1 jobs1 where step: "process_collection gen s est (fs, jobs) c = (fs1, jobs1)"
    by fastforce
  with Cons.prems(1) have rest: "collections_loop gen s est (fs1, jobs1) rest = (fs', jobs')"
    by simp
  from Cons.IH [OF rest Cons.prems(2)] process_collection_fs [OF step Cons.prems(2)]
  show ?case by (auto simp: leak_configs_of_Cons)
qed

lemma job_props_mono:
  assumes "job_props gen s est lcs fs1 job" and "set lcs \<subseteq> set lcs'"
    and "\<And>S r. \<not> force_regenerate gen \<Longrightarrow>
          collection_path gen @ S # ''measurements'' # r \<in> fs1
          \<longleftrightarrow> collection_path gen @ S # ''measurements'' # r \<in> fs"
  shows "job_props gen s est lcs' fs job"
proof -
  from assms(1) obtain lc where lc: "lc \<in> set lcs" "pair_selected gen s lc"
    "results_path job = measurements_path gen s lc" and me: "memory_estimate job = est"
    and nf: "\<not> force_regenerate gen \<longrightarrow> results_path job \<notin> fs1"
    by (auto simp: job_props_def)
  have "results_path job \<notin> fs" if "\<not> force_regenerate gen"
    using nf that assms(3) [OF that, of "name (attrib s)" "[config_name lc]"]
    unfolding lc(3) measurements_path_meas by simp
  with lc me assms(2) show ?thesis by (auto simp: job_props_def)
qed

lemma process_collection_jobs:
  assumes "process_collection gen s est (fs, jobs) c = (fs1, jobs1)"
  shows "\<exists>new. jobs1 = jobs @ new
     \<and> (\<forall>job\<in>set new. job_props gen s est (case c of LeakConfigs xs \<Rightarrow> xs | _ \<Rightarrow> []) fs job)"
proof (cases c)
  case (SensorConfigs configs)
  with assms have "jobs1 = jobs @ []" by simp
  then show ?thesis by (metis empty_iff list.set(1))
next
  case (SensorfaultConfigs configs)
  with assms have "jobs1 = jobs @ []" by simp
  then show ?thesis by (metis empty_iff list.set(1))
next
  case (LeakConfigs configs)
  with assms have "leak_configs_loop gen s est (fs, jobs) configs = (fs1, jobs1)" by simp
  from leak_configs_loop_jobs [OF this] LeakConfigs show ?thesis by simp
qed

lemma collections_loop_jobs:
  assumes "collections_loop gen s est (fs, jobs) cs = (fs', jobs')"
  shows "\<exists>new. jobs' = jobs @ new
     \<and> (\<forall>job\<in>set new. job_props gen s est (leak_configs_of cs) fs job)"
  using assms
proof (induction cs arbitrary: fs jobs)
  case Nil
  then show ?case by simp
next
  case (Cons c rest)
  obtain fs1 jobs1 where step: "process_collection gen s est (fs, jobs) c = (fs1, jobs1)"
    by fastforce
  with Cons.prems(1) have rest: "collections_loop gen s est (fs1, jobs1) rest = (fs', jobs')"
    by simp
  from process_collection_jobs [OF step] obtain new1 where n1: "jobs1 = jobs @ new1"
    "\<forall>job\<in>set new1. job_props gen s est (case c of LeakConfigs xs \<Rightarrow> xs | _ \<Rightarrow> []) fs job"
    by blast
  from Cons.IH [OF rest] obtain new2 where n2: "jobs' = jobs1 @ new2"
    "\<forall>job\<in>set new2. job_props gen s est (leak_configs_of rest) fs1 job" by blast
  have agree: "collection_path gen @ S # ''measurements'' # r \<in> fs1
          \<longleftrightarrow> collection_path gen @ S # ''measurements'' # r \<in> fs"
    if "\<not> force_regenerate gen" for S r
    using process_collection_fs [OF step refl, of S r] that by simp
  have a: "job_props gen s est (leak_configs_of (c # rest)) fs job" if "job \<in> set new1" for job
  proof (rule job_props_mono)
    show "job_props gen s est (case c of LeakConfigs xs \<Rightarrow> xs | _ \<Rightarrow> []) fs job"
      using n1(2) that by blast
    show "set (case c of LeakConfigs xs \<Rightarrow> xs | _ \<Rightarrow> []) \<subseteq> set (leak_configs_of (c # rest))"
      by (simp add: leak_configs_of_Cons)
  qed simp
  have b: "job_props gen s est (leak_configs_of (c # rest)) fs job" if "job \<in> set new2" for job
  proof (rule job_props_mono)
    show "job_props gen s est (leak_configs_of rest) fs1 job" using n2(2) that by blast
    show "set (leak_configs_of rest) \<subseteq> set (leak_configs_of (c # rest))"
      by (simp add: leak_configs_of_Cons)
    show "collection_path gen @ S # ''measurements'' # r \<in> fs1
          \<longleftrightarrow> collection_path gen @ S # ''measurements'' # r \<in> fs"
      if "\<not> force_regenerate gen" for S r
      using that by (rule agree)
  qed
  from n1(1) n2(1) a b have "jobs' = jobs @ (new1 @ new2)
      \<and> (\<forall>job\<in>set (new1 @ new2). job_props gen s est (leak_configs_of (c # rest)) fs job)"
    by auto
  then show ?case by blast
qed

definition scenario_estimate :: "(string \<Rightarrow> error + wn) \<Rightarrow> (string \<Rightarrow> nat) \<Rightarrow> scenario \<Rightarrow> real" where
  "scenario_estimate load_network getsize s =
     (case load_network (network (attrib s)) of
        Inl e \<Rightarrow> 0
      | Inr w \<Rightarrow> estimate_wn_memory w (getsize (network (attrib s))) (iterations (attrib s)))"

definition scenario_selected :: "generator \<Rightarrow> scenario \<Rightarrow> bool" where
  "scenario_selected gen s = is_selected (selection gen) (name (attrib s)) None"

definition scenario_fits ::
  "generator \<Rightarrow> (string \<Rightarrow> error + wn) \<Rightarrow> (string \<Rightarrow> nat) \<Rightarrow> scenario \<Rightarrow> bool" where
  "scenario_fits gen load_network getsize s =
     (case load_network (network (attrib s)) of
        Inl e \<Rightarrow> False
      | Inr w \<Rightarrow> scenario_estimate load_network getsize s \<le> memory_available gen)"

definition removes ::
  "generator \<Rightarrow> (string \<Rightarrow> error + wn) \<Rightarrow> (string \<Rightarrow> nat) \<Rightarrow> scenario \<Rightarrow> path \<Rightarrow> bool" where
  "removes gen load_network getsize s q =
     (force_regenerate gen
      \<and> ((is_selected (selection gen) (name (attrib s)) (Some ''*'')
           \<and> prefix (collection_path gen @ [name (attrib s)]) q)
          \<or> (scenario_selected gen s \<and> scenario_fits gen load_network getsize s
              \<and> (\<exists>lc\<in>set (leak_configs_of (children s)).
                    pair_selected gen s lc \<and> prefix (measurements_path gen s lc) q))))"

lemma scenarios_loop_cases:
  assumes "scenarios_loop gen load_network getsize (fs, jobs, lo) (s # rest) = Inr R"
  obtains
    (unselected) "\<not> scenario_selected gen s"
      "scenarios_loop gen load_network getsize
         (if force_regenerate gen \<and> is_selected (selection gen) (name (attrib s)) (Some ''*'')
          then rmtree (collection_path gen @ [name (attrib s)]) fs else fs, jobs, lo) rest = Inr R"
  | (too_big) w where "scenario_selected gen s" "load_network (network (attrib s)) = Inr w"
      "\<not> scenario_fits gen load_network getsize s"
      "scenarios_loop gen load_network getsize
         (write_topology (collection_path gen @ [name (attrib s)])
            (if force_regenerate gen \<and> is_selected (selection gen) (name (attrib s)) (Some ''*'')
             then rmtree (collection_path gen @ [name (attrib s)]) fs else fs),
          jobs, min (scenario_estimate load_network getsize s) lo) rest = Inr R"
  | (fits) w fs3 jobs3 where "scenario_selected gen s"
      "load_network (network (attrib s)) = Inr w"
      "scenario_fits gen load_network getsize s"
      "collections_loop gen s (scenario_estimate load_network getsize s)
         (write_topology (collection_path gen @ [name (attrib s)])
            (if force_regenerate gen \<and> is_selected (selection gen) (name (attrib s)) (Some ''*'')
             then rmtree (collection_path gen @ [name (attrib s)]) fs else fs), jobs)
         (children s) = (fs3, jobs3)"
      "scenarios_loop gen load_network getsize
         (fs3, jobs3, min (scenario_estimate load_network getsize s) lo) rest = Inr R"
proof (cases "scenario_selected gen s")
  case False
  with assms unselected show ?thesis by (simp add: scenario_selected_def Let_def)
next
  case True
  with assms obtain w where w: "load_network (network (attrib s)) = Inr w"
    by (auto simp: scenario_selected_def Let_def and_then_def split: sum.splits)
  have m: "(if a < b then a else b) = min a b" for a b :: real by (simp add: min_def)
  show ?thesis
  proof (cases "scenario_fits gen load_network getsize s")
    case False
    with assms True w too_big show ?thesis
      by (simp add: scenario_selected_def scenario_fits_def scenario_estimate_def Let_def
          and_then_def m not_le)
  next
    case fit: True
    obtain fs3 jobs3 where c: "collections_loop gen s (scenario_estimate load_network getsize s)
         (write_topology (collection_path gen @ [name (attrib s)])
            (if force_regenerate gen \<and> is_selected (selection gen) (name (attrib s)) (Some ''*'')
             then rmtree (collection_path gen @ [name (attrib s)]) fs else fs), jobs)
         (children s) = (fs3, jobs3)" by fastforce
    with assms True w fit fits [OF True w fit c] show ?thesis
      by (simp add: scenario_selected_def scenario_fits_def scenario_estimate_def Let_def
          and_then_def m not_le)
  qed
qed

lemma scenarios_loop_fs:
  assumes "scenarios_loop gen load_network getsize (fs, jobs, lo) ss = Inr (fs', jobs', lo')"
    and q: "q = collection_path gen @ S # ''measurements'' # r"
  shows "q \<in> fs' \<longleftrightarrow> q \<in> fs \<and> \<not> (\<exists>s\<in>set ss. removes gen load_network getsize s q)"
  using assms(1)
proof (induction ss arbitrary: fs jobs lo)
  case Nil
  then show ?case by simp
next
  case (Cons s rest)
  let ?sp = "collection_path gen @ [name (attrib s)]"
  let ?star = "force_regenerate gen \<and> is_selected (selection gen) (name (attrib s)) (Some ''*'')"
  let ?fs1 = "if ?star then rmtree ?sp fs else fs"
  have q1: "q \<in> ?fs1 \<longleftrightarrow> q \<in> fs \<and> \<not> (?star \<and> prefix ?sp q)"
    by (auto simp: rmtree_iff)
  have q2: "q \<in> write_topology ?sp ?fs1 \<longleftrightarrow> q \<in> ?fs1"
    unfolding q by (rule write_topology_meas)
  from Cons.prems show ?case
  proof (cases rule: scenarios_loop_cases)
    case unselected
    then have "removes gen load_network getsize s q \<longleftrightarrow> ?star \<and> prefix ?sp q"
      by (auto simp: removes_def)
    with Cons.IH [OF unselected(2)] q1 show ?thesis by auto
  next
    case (too_big w)
    then have "removes gen load_network getsize s q \<longleftrightarrow> ?star \<and> prefix ?sp q"
      by (auto simp: removes_def)
    with Cons.IH [OF too_big(4)] q1 q2 show ?thesis by auto
  next
    case (fits w fs3 jobs3)
    then have "removes gen load_network getsize s q \<longleftrightarrow> (?star \<and> prefix ?sp q)
        \<or> (force_regenerate gen \<and> (\<exists>lc\<in>set (leak_configs_of (children s)).
              pair_selected gen s lc \<and> prefix (measurements_path gen s lc) q))"
      by (auto simp: removes_def)
    with Cons.IH [OF fits(5)] collections_loop_fs [OF fits(4) q] q1 q2 show ?thesis by auto
  qed
qed

definition scenario_job ::
  "generator \<Rightarrow> (string \<Rightarrow> error + wn) \<Rightarrow> (string \<Rightarrow> nat) \<Rightarrow> scenario list \<Rightarrow> path set
     \<Rightarrow> simulation_job \<Rightarrow> bool" where
  "scenario_job gen load_network getsize ss fs job =
     (\<exists>s\<in>set ss. scenario_selected gen s \<and> scenario_fits gen load_network getsize s
        \<and> job_props gen s (scenario_estimate load_network getsize s)
             (leak_configs_of (children s)) fs job)"

lemma scenario_job_mono:
  assumes "scenario_job gen load_network getsize ss fs1 job" and "set ss \<subseteq> set ss'"
    and "\<And>S r. \<not> force_regenerate gen \<Longrightarrow>
          collection_path gen @ S # ''measurements'' # r \<in> fs1
          \<longleftrightarrow> collection_path gen @ S # ''measurements'' # r \<in> fs"
  shows "scenario_job gen load_network getsize ss' fs job"
proof -
  from assms(1) obtain s where s: "s \<in> set ss" "scenario_selected gen s"
    "scenario_fits gen load_network getsize s"
    "job_props gen s (scenario_estimate load_network getsize s)
       (leak_configs_of (children s)) fs1 job"
    by (auto simp: scenario_job_def)
  have "job_props gen s (scenario_estimate load_network getsize s)
       (leak_configs_of (children s)) fs job"
    using s(4) subset_refl assms(3) by (rule job_props_mono)
  with s assms(2) show ?thesis by (auto simp: scenario_job_def)
qed

lemma scenarios_loop_jobs:
  assumes "scenarios_loop gen load_network getsize (fs, jobs, lo) ss = Inr (fs', jobs', lo')"
  shows "\<exists>new. jobs' = jobs @ new
     \<and> (\<forall>job\<in>set new. scenario_job gen load_network getsize ss fs job)"
  using assms
proof (induction ss arbitrary: fs jobs lo)
  case Nil
  then show ?case by simp
next
  case (Cons s rest)
  let ?sp = "collection_path gen @ [name (attrib s)]"
  let ?star = "force_regenerate gen \<and> is_selected (selection gen) (name (attrib s)) (Some ''*'')"
  let ?fs1 = "if ?star then rmtree ?sp fs else fs"
  let ?fs2 = "write_topology ?sp ?fs1"
  have agree2: "collection_path gen @ S # ''measurements'' # r \<in> ?fs2
          \<longleftrightarrow> collection_path gen @ S # ''measurements'' # r \<in> fs"
    if "\<not> force_regenerate gen" for S r
    using that by (simp add: write_topology_meas)
  from Cons.prems show ?case
  proof (cases rule: scenarios_loop_cases)
    case unselected
    from Cons.IH [OF unselected(2)] obtain new where n: "jobs' = jobs @ new"
      "\<forall>job\<in>set new. scenario_job gen load_network getsize rest ?fs1 job" by blast
    have "scenario_job gen load_network getsize (s # rest) fs job" if "job \<in> set new" for job
    proof (rule scenario_job_mono)
      show "scenario_job gen load_network getsize rest ?fs1 job" using n(2) that by blast
      show "set rest \<subseteq> set (s # rest)" by auto
    qed simp
    with n(1) show ?thesis by blast
  next
    case (too_big w)
    from Cons.IH [OF too_big(4)] obtain new where n: "jobs' = jobs @ new"
      "\<forall>job\<in>set new. scenario_job gen load_network getsize rest ?fs2 job" by blast
    have "scenario_job gen load_network getsize (s # rest) fs job" if "job \<in> set new" for job
    proof (rule scenario_job_mono)
      show "scenario_job gen load_network getsize rest ?fs2 job" using n(2) that by blast
      show "set rest \<subseteq> set (s # rest)" by auto
    qed (rule agree2)
    with n(1) show ?thesis by blast
  next
    case (fits w fs3 jobs3)
    from collections_loop_jobs [OF fits(4)] obtain new1 where n1: "jobs3 = jobs @ new1"
      "\<forall>job\<in>set new1. job_props gen s (scenario_estimate load_network getsize s)
          (leak_configs_of (children s)) ?fs2 job" by blast
    from Cons.IH [OF fits(5)] obtain new2 where n2: "jobs' = jobs3 @ new2"
      "\<forall>job\<in>set new2. scenario_job gen load_network getsize rest fs3 job" by blast
    have agree3: "collection_path gen @ S # ''measurements'' # r \<in> fs3
          \<longleftrightarrow> collection_path gen @ S # ''measurements'' # r \<in> fs"
      if "\<not> force_regenerate gen" for S r
      using collections_loop_fs [OF fits(4) refl, of S r] agree2 [OF that, of S r] that by simp
    have a: "scenario_job gen load_network getsize (s # rest) fs job" if "job \<in> set new1" for job
    proof -
      have "job_props gen s (scenario_estimate load_network getsize s)
          (leak_configs_of (children s)) fs job"
      proof (rule job_props_mono)
        show "job_props gen s (scenario_estimate load_network getsize s)
          (leak_configs_of (children s)) ?fs2 job" using n1(2) that by blast
      qed (simp, rule agree2)
      with fits(1,3) show ?thesis by (auto simp: scenario_job_def)
    qed
    have b: "scenario_job gen load_network getsize (s # rest) fs job" if "job \<in> set new2" for job
    proof (rule scenario_job_mono)
      show "scenario_job gen load_network getsize rest fs3 job" using n2(2) that by blast
      show "set rest \<subseteq> set (s # rest)" by auto
    qed (rule agree3)
    from n1(1) n2(1) a b have "jobs' = jobs @ (new1 @ new2)
      \<and> (\<forall>job\<in>set (new1 @ new2). scenario_job gen load_network getsize (s # rest) fs job)"
      by auto
    then show ?thesis by blast
  qed
qed

lemma scenarios_loop_lowest:
  assumes "scenarios_loop gen load_network getsize (fs, jobs, lo) ss = Inr (fs', jobs', lo')"
  shows "lo' = fold min (map (scenario_estimate load_network getsize)
                           (filter (scenario_selected gen) ss)) lo"
  using assms
proof (induction ss arbitrary: fs jobs lo)
  case Nil
  then show ?case by simp
next
  case (Cons s rest)
  from Cons.prems show ?case
  proof (cases rule: scenarios_loop_cases)
    case unselected
    from Cons.IH [OF unselected(2)] unselected(1) show ?thesis by simp
  next
    case (too_big w)
    from Cons.IH [OF too_big(4)] too_big(1) show ?thesis by simp
  next
    case (fits w fs3 jobs3)
    from Cons.IH [OF fits(5)] fits(1) show ?thesis by simp
  qed
qed

lemma scenarios_loop_skip:
  assumes "\<forall>s\<in>set ss. \<not> is_selected (selection gen) (name (attrib s)) None
             \<and> \<not> is_selected (selection gen) (name (attrib s)) (Some ''*'')"
  shows "scenarios_loop gen load_network getsize (fs, jobs, lo) ss = Inr (fs, jobs, lo)"
  using assms by (induction ss) (simp_all add: Let_def)

lemma dotless_not_selected:
  assumes "\<forall>x\<in>set sel. CHR ''.'' \<notin> set x"
  shows "\<not> is_selected (Some sel) S L"
proof (cases L)
  case None
  have "\<not> prefix (S @ ''.'') x" if "x \<in> set sel" for x
  proof
    assume "prefix (S @ ''.'') x"
    then obtain r where "x = (S @ ''.'') @ r" by (auto simp: prefix_def)
    then have "CHR ''.'' \<in> set x" by simp
    with assms that show False by blast
  qed
  with None show ?thesis by (auto simp: list_ex_iff)
next
  case (Some l)
  have "S @ ''.'' @ l \<notin> set sel" "S @ ''.*'' \<notin> set sel"
    using assms by (auto dest: bspec)
  with Some show ?thesis by simp
qed

lemma create_job_list_run:
  assumes "create_job_list_and_write_configs gen load_network getsize ss fs = Inr (fs', jobs, nt)"
  obtains lo where "scenarios_loop gen load_network getsize (fs, [], 10 ^ 12) ss = Inr (fs', jobs, lo)"
    "lo \<noteq> 0" "nt = min (n_threads gen) \<lfloor>memory_available gen / lo\<rfloor>"
  using assms
  by (auto simp: create_job_list_and_write_configs_def and_then_def Let_def min_def
      split: sum.splits if_splits)

lemma pair_imp_scenario:
  assumes "is_selected sel S (Some L)"
  shows "is_selected sel S None"
proof (cases sel)
  case None
  then show ?thesis by simp
next
  case (Some a)
  with assms have "S @ ''.'' @ L \<in> set a \<or> S @ ''.*'' \<in> set a" by (simp split: if_splits)
  then obtain x where x: "x \<in> set a" "x = (S @ ''.'') @ L \<or> x = (S @ ''.'') @ ''*''" by auto
  then have "prefix (S @ ''.'') x" by auto
  with x(1) Some show ?thesis by (auto simp: list_ex_iff)
qed

lemma scenario_fits_le:
  "scenario_fits gen load_network getsize s
     \<Longrightarrow> scenario_estimate load_network getsize s \<le> memory_available gen"
  by (auto simp: scenario_fits_def split: sum.splits)

lemma star_imp_pair:
  "is_selected sel S (Some ''*'') \<Longrightarrow> is_selected sel S (Some L)"
  by (cases sel) (auto split: if_splits)

lemma removes_imp_selected:
  assumes "removes gen load_network getsize s (collection_path gen @ S # ''measurements'' # L # r)"
  shows "is_selected (selection gen) S (Some L)"
  using assms
  by (auto simp: removes_def pair_selected_def measurements_path_def dest: star_imp_pair)

lemma estimate_nonneg: "0 \<le> its \<Longrightarrow> 0 \<le> estimate_wn_memory w n its"
  by (simp add: estimate_wn_memory_def Let_def)

lemma scenario_estimate_nonneg:
  "0 \<le> iterations (attrib s) \<Longrightarrow> 0 \<le> scenario_estimate load_network getsize s"
  by (simp add: scenario_estimate_def estimate_nonneg split: sum.splits)

lemma regeneration_lemma:
  assumes run: "create_job_list_and_write_configs gen load_network getsize ss fs = Inr (fs', jobs, nt)"
  shows "(\<not> force_regenerate gen \<longrightarrow> (\<forall>job\<in>set jobs. results_path job \<notin> fs))"
    and "(\<not> force_regenerate gen
        \<and> (\<forall>s\<in>set ss. \<forall>lc\<in>set (leak_configs_of (children s)).
              pair_selected gen s lc \<longrightarrow> measurements_path gen s lc \<in> fs)
       \<longrightarrow> jobs = [])"
    and "collection_path gen @ S # ''measurements'' # r \<in> fs'
          \<longleftrightarrow> collection_path gen @ S # ''measurements'' # r \<in> fs
              \<and> \<not> (\<exists>s\<in>set ss. removes gen load_network getsize s
                        (collection_path gen @ S # ''measurements'' # r))"
    and "\<not> is_selected (selection gen) S (Some L) \<longrightarrow>
          (collection_path gen @ S # ''measurements'' # L # r \<in> fs'
             \<longleftrightarrow> collection_path gen @ S # ''measurements'' # L # r \<in> fs)"
    and "force_regenerate gen \<and> s \<in> set ss
          \<and> is_selected (selection gen) (name (attrib s)) (Some ''*'')
       \<longrightarrow> collection_path gen @ name (attrib s) # ''measurements'' # r \<notin> fs'"
    and "force_regenerate gen \<and> s \<in> set ss \<and> lc \<in> set (leak_configs_of (children s))
          \<and> pair_selected gen s lc \<and> scenario_fits gen load_network getsize s
       \<longrightarrow> measurements_path gen s lc @ r \<notin> fs'"
proof -
  from run obtain lo where loop:
    "scenarios_loop gen load_network getsize (fs, [], 10 ^ 12) ss = Inr (fs', jobs, lo)"
    by (rule create_job_list_run)
  from scenarios_loop_jobs [OF loop]
  have jobs: "\<forall>job\<in>set jobs. scenario_job gen load_network getsize ss fs job" by simp
  have fs: "q \<in> fs' \<longleftrightarrow> q \<in> fs \<and> \<not> (\<exists>s\<in>set ss. removes gen load_network getsize s q)"
    if "q = collection_path gen @ S # ''measurements'' # r" for q S r
    using loop that by (rule scenarios_loop_fs)
  show "(\<not> force_regenerate gen \<longrightarrow> (\<forall>job\<in>set jobs. results_path job \<notin> fs))"
    using jobs by (auto simp: scenario_job_def job_props_def)
  show "(\<not> force_regenerate gen
        \<and> (\<forall>s\<in>set ss. \<forall>lc\<in>set (leak_configs_of (children s)).
              pair_selected gen s lc \<longrightarrow> measurements_path gen s lc \<in> fs)
       \<longrightarrow> jobs = [])"
  proof (intro impI, rule ccontr)
    assume a: "\<not> force_regenerate gen
        \<and> (\<forall>s\<in>set ss. \<forall>lc\<in>set (leak_configs_of (children s)).
              pair_selected gen s lc \<longrightarrow> measurements_path gen s lc \<in> fs)"
      and "jobs \<noteq> []"
    then obtain job where "job \<in> set jobs" by (cases jobs) auto
    with jobs have "scenario_job gen load_network getsize ss fs job" by blast
    with a show False by (auto simp: scenario_job_def job_props_def)
  qed
  show "collection_path gen @ S # ''measurements'' # r \<in> fs'
          \<longleftrightarrow> collection_path gen @ S # ''measurements'' # r \<in> fs
              \<and> \<not> (\<exists>s\<in>set ss. removes gen load_network getsize s
                        (collection_path gen @ S # ''measurements'' # r))"
    by (rule fs [OF refl])
  show "\<not> is_selected (selection gen) S (Some L) \<longrightarrow>
          (collection_path gen @ S # ''measurements'' # L # r \<in> fs'
             \<longleftrightarrow> collection_path gen @ S # ''measurements'' # L # r \<in> fs)"
    using fs [OF refl, of S "L # r"] removes_imp_selected [of gen load_network getsize _ S L r]
    by blast
  show "force_regenerate gen \<and> s \<in> set ss
          \<and> is_selected (selection gen) (name (attrib s)) (Some ''*'')
       \<longrightarrow> collection_path gen @ name (attrib s) # ''measurements'' # r \<notin> fs'"
  proof
    assume a: "force_regenerate gen \<and> s \<in> set ss
          \<and> is_selected (selection gen) (name (attrib s)) (Some ''*'')"
    then have "removes gen load_network getsize s
        (collection_path gen @ name (attrib s) # ''measurements'' # r)"
      by (simp add: removes_def)
    with a fs [OF refl, of "name (attrib s)" r]
    show "collection_path gen @ name (attrib s) # ''measurements'' # r \<notin> fs'" by blast
  qed
  show "force_regenerate gen \<and> s \<in> set ss \<and> lc \<in> set (leak_configs_of (children s))
          \<and> pair_selected gen s lc \<and> scenario_fits gen load_network getsize s
       \<longrightarrow> measurements_path gen s lc @ r \<notin> fs'"
  proof
    assume a: "force_regenerate gen \<and> s \<in> set ss \<and> lc \<in> set (leak_configs_of (children s))
          \<and> pair_selected gen s lc \<and> scenario_fits gen load_network getsize s"
    then have sel: "scenario_selected gen s"
      by (auto simp: scenario_selected_def pair_selected_def dest: pair_imp_scenario)
    have eq: "measurements_path gen s lc @ r
        = collection_path gen @ name (attrib s) # ''measurements'' # config_name lc # r"
      by (simp add: measurements_path_def)
    have "prefix (measurements_path gen s lc) (measurements_path gen s lc @ r)" by simp
    with a sel have "removes gen load_network getsize s (measurements_path gen s lc @ r)"
      unfolding removes_def by blast
    with a fs [OF eq] show "measurements_path gen s lc @ r \<notin> fs'" by blast
  qed
qed

lemma worker_count_lemma:
  assumes run: "create_job_list_and_write_configs gen load_network getsize ss fs = Inr (fs', jobs, nt)"
  shows "nt = min (n_threads gen)
           \<lfloor>memory_available gen
              / Min (set (10 ^ 12 # map (scenario_estimate load_network getsize)
                                      (filter (scenario_selected gen) ss)))\<rfloor>"
    and "\<forall>job\<in>set jobs. memory_estimate job \<le> memory_available gen"
    and "jobs \<noteq> [] \<and> 1 \<le> n_threads gen \<and> (\<forall>s\<in>set ss. 0 \<le> iterations (attrib s))
       \<longrightarrow> 1 \<le> nt"
proof -
  let ?ests = "map (scenario_estimate load_network getsize) (filter (scenario_selected gen) ss)"
  from run obtain lo where loop:
    "scenarios_loop gen load_network getsize (fs, [], 10 ^ 12) ss = Inr (fs', jobs, lo)"
    and lo0: "lo \<noteq> 0" and nt: "nt = min (n_threads gen) \<lfloor>memory_available gen / lo\<rfloor>"
    by (rule create_job_list_run)
  have lo: "lo = Min (set (10 ^ 12 # ?ests))"
    using scenarios_loop_lowest [OF loop] by (simp only: Min.set_eq_fold)
  from nt lo show "nt = min (n_threads gen) \<lfloor>memory_available gen / Min (set (10 ^ 12 # ?ests))\<rfloor>"
    by simp
  from scenarios_loop_jobs [OF loop]
  have jobs: "\<forall>job\<in>set jobs. scenario_job gen load_network getsize ss fs job" by simp
  have fit: "\<exists>s\<in>set ss. scenario_selected gen s
      \<and> memory_estimate job = scenario_estimate load_network getsize s
      \<and> scenario_estimate load_network getsize s \<le> memory_available gen"
    if "job \<in> set jobs" for job
    using jobs that unfolding scenario_job_def job_props_def by (meson scenario_fits_le)
  then show "\<forall>job\<in>set jobs. memory_estimate job \<le> memory_available gen" by fastforce
  show "jobs \<noteq> [] \<and> 1 \<le> n_threads gen \<and> (\<forall>s\<in>set ss. 0 \<le> iterations (attrib s))
       \<longrightarrow> 1 \<le> nt"
  proof
    assume a: "jobs \<noteq> [] \<and> 1 \<le> n_threads gen \<and> (\<forall>s\<in>set ss. 0 \<le> iterations (attrib s))"
    then obtain job where "job \<in> set jobs" by (cases jobs) auto
    from fit [OF this] obtain s where s: "s \<in> set ss" "scenario_selected gen s"
      "scenario_estimate load_network getsize s \<le> memory_available gen" by blast
    then have "scenario_estimate load_network getsize s \<in> set (10 ^ 12 # ?ests)" by simp
    then have "lo \<le> scenario_estimate load_network getsize s"
      unfolding lo by (intro Min_le) simp_all
    with s(3) have le: "lo \<le> memory_available gen" by simp
    have "\<forall>x\<in>set (10 ^ 12 # ?ests). 0 \<le> x"
      using a by (auto simp: scenario_estimate_nonneg)
    moreover have "lo \<in> set (10 ^ 12 # ?ests)" unfolding lo by (intro Min_in) simp_all
    ultimately have "0 \<le> lo" by blast
    with lo0 have "0 < lo" by simp
    with le have "1 \<le> memory_available gen / lo" by simp
    then have "1 \<le> \<lfloor>memory_available gen / lo\<rfloor>" by (simp add: le_floor_iff)
    with a nt show "1 \<le> nt" by simp
  qed
qed

lemma dotless_create:
  assumes "\<forall>x\<in>set sel. CHR ''.'' \<notin> set x"
  shows "create_job_list_and_write_configs (gen\<lparr>selection := Some sel\<rparr>) load_network getsize ss fs
     = Inr (fs, [], min (n_threads gen) \<lfloor>memory_available gen / 10 ^ 12\<rfloor>)"
proof -
  have "scenarios_loop (gen\<lparr>selection := Some sel\<rparr>) load_network getsize (fs, [], 10 ^ 12) ss
      = Inr (fs, [], 10 ^ 12)"
    by (rule scenarios_loop_skip)
      (simp add: dotless_not_selected [OF assms] del: is_selected.simps)
  then show ?thesis
    by (simp add: create_job_list_and_write_configs_def and_then_def Let_def min_def)
qed

subsection \<open>Example collection\<close>

lemma rmtree_empty [simp]: "rmtree p {} = {}"
  by (simp add: rmtree_def)

lemma rmtree_insert [simp]:
  "rmtree p (insert q fs) = (if prefix p q then rmtree p fs else insert q (rmtree p fs))"
  by (auto simp: rmtree_def)

definition gen_force :: generator where
  "gen_force =
     \<lparr>force_regenerate = True, selection = Some [''A.L1''], collection_path = [''out''],
      n_threads = 4, memory_available = 100, output_dtype = ''float16''\<rparr>"

definition gen_small :: generator where
  "gen_small = gen_force\<lparr>memory_available := 50\<rparr>"

definition gen_plain :: generator where
  "gen_plain = gen_force\<lparr>force_regenerate := False, selection := None\<rparr>"

definition lc_L1 :: leak_config where
  "lc_L1 = \<lparr>config_name = ''L1'', config_leaks = []\<rparr>"

definition lc_L2 :: leak_config where
  "lc_L2 = \<lparr>config_name = ''L2'', config_leaks = []\<rparr>"

definition scen_A :: scenario where
  "scen_A =
     \<lparr>attrib = \<lparr>name = ''A'', network = ''net.inp'', iterations = 100, timeStep = 60\<rparr>,
      children = [LeakConfigs [lc_L1, lc_L2]]\<rparr>"

definition fs_two :: "path set" where
  "fs_two =
     {[''out''], [''out'', ''A''], [''out'', ''A'', ''measurements''],
      [''out'', ''A'', ''measurements'', ''L1''],
      [''out'', ''A'', ''measurements'', ''L1'', ''pressure.pkl''],
      [''out'', ''A'', ''measurements'', ''L2'']}"

lemmas example_defs =
  create_job_list_and_write_configs_def gen_force_def gen_small_def gen_plain_def scen_A_def
  lc_L1_def lc_L2_def fs_two_def and_then_def estimate_wn_memory_def net_one_node_def Let_def
  write_topology_def write_config_def write_file_def makedirs_def

lemma scen_A_simps:
  "children scen_A = [LeakConfigs [lc_L1, lc_L2]]" "name (attrib scen_A) = ''A''"
  "network (attrib scen_A) = ''net.inp''" "iterations (attrib scen_A) = 100"
  by (simp_all add: scen_A_def)

lemma example_estimate:
  "scenario_estimate (\<lambda>_. Inr net_one_node) (\<lambda>_. 2000) scen_A = 57"
  by (simp add: scenario_estimate_def estimate_wn_memory_def net_one_node_def scen_A_def)

subsection \<open>Regeneration\<close>

text \<open>
  C3. Let the job-list creation return. Without force, no job is created for a
  measurements directory that exists, so when the directories of all selected pairs
  exist the job list is empty. The measurements of a pair that is not selected are
  left as they were, with or without force. With force, every measurement artifact of a
  scenario selected by \<open>*\<close> is gone, and so is the measurements directory of every pair
  selected in a scenario whose memory estimate fits the available memory; the leak
  configs of a selected scenario whose estimate does not fit are not visited. A
  measurement artifact exists afterwards exactly when it existed before and no scenario
  of the configuration removes it.
\<close>

theorem regeneration_effect:
  "create_job_list_and_write_configs gen load_network getsize ss fs = Inr (fs', jobs, nt) \<longrightarrow>
     (\<not> force_regenerate gen \<longrightarrow> (\<forall>job\<in>set jobs. results_path job \<notin> fs))
     \<and> (\<not> force_regenerate gen
          \<and> (\<forall>s\<in>set ss. \<forall>lc\<in>set (leak_configs_of (children s)).
                pair_selected gen s lc \<longrightarrow> measurements_path gen s lc \<in> fs)
         \<longrightarrow> jobs = [])
     \<and> (\<not> is_selected (selection gen) S (Some L) \<longrightarrow>
          (collection_path gen @ S # ''measurements'' # L # r \<in> fs'
             \<longleftrightarrow> collection_path gen @ S # ''measurements'' # L # r \<in> fs))
     \<and> (force_regenerate gen \<and> s \<in> set ss
          \<and> is_selected (selection gen) (name (attrib s)) (Some ''*'')
         \<longrightarrow> collection_path gen @ name (attrib s) # ''measurements'' # r \<notin> fs')
     \<and> (force_regenerate gen \<and> s \<in> set ss \<and> lc \<in> set (leak_configs_of (children s))
          \<and> pair_selected gen s lc \<and> scenario_fits gen load_network getsize s
         \<longrightarrow> measurements_path gen s lc @ r \<notin> fs')
     \<and> (collection_path gen @ S # ''measurements'' # r \<in> fs'
          \<longleftrightarrow> collection_path gen @ S # ''measurements'' # r \<in> fs
              \<and> \<not> (\<exists>s\<in>set ss. removes gen load_network getsize s
                        (collection_path gen @ S # ''measurements'' # r)))"
proof
  assume run: "create_job_list_and_write_configs gen load_network getsize ss fs
      = Inr (fs', jobs, nt)"
  note l = regeneration_lemma [OF run]
  show "(\<not> force_regenerate gen \<longrightarrow> (\<forall>job\<in>set jobs. results_path job \<notin> fs))
     \<and> (\<not> force_regenerate gen
          \<and> (\<forall>s\<in>set ss. \<forall>lc\<in>set (leak_configs_of (children s)).
                pair_selected gen s lc \<longrightarrow> measurements_path gen s lc \<in> fs)
         \<longrightarrow> jobs = [])
     \<and> (\<not> is_selected (selection gen) S (Some L) \<longrightarrow>
          (collection_path gen @ S # ''measurements'' # L # r \<in> fs'
             \<longleftrightarrow> collection_path gen @ S # ''measurements'' # L # r \<in> fs))
     \<and> (force_regenerate gen \<and> s \<in> set ss
          \<and> is_selected (selection gen) (name (attrib s)) (Some ''*'')
         \<longrightarrow> collection_path gen @ name (attrib s) # ''measurements'' # r \<notin> fs')
     \<and> (force_regenerate gen \<and> s \<in> set ss \<and> lc \<in> set (leak_configs_of (children s))
          \<and> pair_selected gen s lc \<and> scenario_fits gen load_network getsize s
         \<longrightarrow> measurements_path gen s lc @ r \<notin> fs')
     \<and> (collection_path gen @ S # ''measurements'' # r \<in> fs'
          \<longleftrightarrow> collection_path gen @ S # ''measurements'' # r \<in> fs
              \<and> \<not> (\<exists>s\<in>set ss. removes gen load_network getsize s
                        (collection_path gen @ S # ''measurements'' # r)))"
    by (intro conjI) (rule l(1), rule l(2), rule l(4), rule l(5), rule l(6), rule l(3))
qed

theorem regeneration_effect_witness:
  "(\<exists>fs' jobs nt.
      create_job_list_and_write_configs gen_force (\<lambda>_. Inr net_one_node) (\<lambda>_. 2000) [scen_A] fs_two
        = Inr (fs', jobs, nt)
      \<and> [''out'', ''A'', ''measurements'', ''L1'', ''pressure.pkl''] \<notin> fs'
      \<and> [''out'', ''A'', ''measurements'', ''L2''] \<in> fs')
   \<and> (\<exists>fs' nt.
        create_job_list_and_write_configs gen_plain (\<lambda>_. Inr net_one_node) (\<lambda>_. 2000) [scen_A] fs_two
          = Inr (fs', [], nt))"
proof -
  obtain fs' jobs nt where run:
    "create_job_list_and_write_configs gen_force (\<lambda>_. Inr net_one_node) (\<lambda>_. 2000) [scen_A] fs_two
       = Inr (fs', jobs, nt)"
    by (simp add: example_defs)
  have h: "force_regenerate gen_force \<and> scen_A \<in> set [scen_A]
      \<and> lc_L1 \<in> set (leak_configs_of (children scen_A)) \<and> pair_selected gen_force scen_A lc_L1
      \<and> scenario_fits gen_force (\<lambda>_. Inr net_one_node) (\<lambda>_. 2000) scen_A"
    by (simp add: example_estimate scenario_fits_def pair_selected_def leak_configs_of_def
        gen_force_def scen_A_simps lc_L1_def)
  have n: "\<not> is_selected (selection gen_force) ''A'' (Some ''L2'')"
    by (simp add: gen_force_def)
  from regeneration_effect [where gen = gen_force and ss = "[scen_A]" and fs = fs_two
      and s = scen_A and lc = lc_L1 and r = "[''pressure.pkl'']" and S = "''A''" and L = "''L2''"]
    run h
  have a: "measurements_path gen_force scen_A lc_L1 @ [''pressure.pkl''] \<notin> fs'" by blast
  from regeneration_effect [where gen = gen_force and ss = "[scen_A]" and fs = fs_two
      and s = scen_A and lc = lc_L1 and r = "[]" and S = "''A''" and L = "''L2''"]
    run n
  have b: "collection_path gen_force @ ''A'' # ''measurements'' # ''L2'' # [] \<in> fs'
      \<longleftrightarrow> collection_path gen_force @ ''A'' # ''measurements'' # ''L2'' # [] \<in> fs_two"
    by blast
  obtain fs2 jobs2 nt2 where run2:
    "create_job_list_and_write_configs gen_plain (\<lambda>_. Inr net_one_node) (\<lambda>_. 2000) [scen_A] fs_two
       = Inr (fs2, jobs2, nt2)"
    by (simp add: example_defs)
  have h2: "\<not> force_regenerate gen_plain
      \<and> (\<forall>s\<in>set [scen_A]. \<forall>lc\<in>set (leak_configs_of (children s)).
            pair_selected gen_plain s lc \<longrightarrow> measurements_path gen_plain s lc \<in> fs_two)"
    by (simp add: gen_plain_def gen_force_def scen_A_def leak_configs_of_def lc_L1_def lc_L2_def
        measurements_path_def fs_two_def)
  from regeneration_effect [where gen = gen_plain and ss = "[scen_A]" and fs = fs_two
      and s = scen_A and lc = lc_L1 and r = "[]" and S = "''A''" and L = "''L2''"]
    run2 h2
  have "jobs2 = []" by blast
  with run2 a b run show ?thesis
    by (auto simp: measurements_path_def gen_force_def scen_A_def lc_L1_def fs_two_def)
qed

text \<open>
  With force and the selector \<open>A.L1\<close>, but an estimate of 57 kB for scenario A against 50
  kB of available memory, the measurements of \<open>A.L1\<close> are still there after the run.
\<close>

theorem matching_measurements_kept_when_over_budget:
  "force_regenerate gen_small \<and> is_selected (selection gen_small) ''A'' (Some ''L1'')
   \<and> (\<exists>fs' jobs nt.
        create_job_list_and_write_configs gen_small (\<lambda>_. Inr net_one_node) (\<lambda>_. 2000)
          [scen_A] fs_two = Inr (fs', jobs, nt)
        \<and> [''out'', ''A'', ''measurements'', ''L1''] \<in> fs')"
  by (simp add: example_defs)

subsection \<open>The number of workers\<close>

text \<open>
  C9. When the job-list creation returns, the number of threads is the smaller of the
  requested number and the floor of the available memory divided by the lowest
  estimate, which is the least of the estimates of all selected scenarios (also those
  skipped for their memory) and of the initial value \<open>10^12\<close>. Every created job's
  estimate is at most the available memory. When at least one job was created, at least
  one thread was requested and no iteration count is negative, the number of threads is
  at least 1.
\<close>

theorem effective_worker_count:
  "create_job_list_and_write_configs gen load_network getsize ss fs = Inr (fs', jobs, nt) \<longrightarrow>
     nt = min (n_threads gen)
            \<lfloor>memory_available gen
               / Min (set (10 ^ 12 # map (scenario_estimate load_network getsize)
                                       (filter (scenario_selected gen) ss)))\<rfloor>
     \<and> (\<forall>job\<in>set jobs. memory_estimate job \<le> memory_available gen)
     \<and> (jobs \<noteq> [] \<and> 1 \<le> n_threads gen \<and> (\<forall>s\<in>set ss. 0 \<le> iterations (attrib s))
          \<longrightarrow> 1 \<le> nt)"
proof
  assume run: "create_job_list_and_write_configs gen load_network getsize ss fs
      = Inr (fs', jobs, nt)"
  note l = worker_count_lemma [OF run]
  show "nt = min (n_threads gen)
            \<lfloor>memory_available gen
               / Min (set (10 ^ 12 # map (scenario_estimate load_network getsize)
                                       (filter (scenario_selected gen) ss)))\<rfloor>
     \<and> (\<forall>job\<in>set jobs. memory_estimate job \<le> memory_available gen)
     \<and> (jobs \<noteq> [] \<and> 1 \<le> n_threads gen \<and> (\<forall>s\<in>set ss. 0 \<le> iterations (attrib s))
          \<longrightarrow> 1 \<le> nt)"
    by (intro conjI) (rule l(1), rule l(2), rule l(3))
qed

theorem effective_worker_count_witness:
  "\<exists>fs' jobs nt.
      create_job_list_and_write_configs gen_force (\<lambda>_. Inr net_one_node) (\<lambda>_. 2000) [scen_A] fs_two
        = Inr (fs', jobs, nt)
      \<and> jobs \<noteq> [] \<and> 1 \<le> n_threads gen_force \<and> 0 \<le> iterations (attrib scen_A)
      \<and> 1 \<le> nt \<and> nt = min 4 \<lfloor>100 / 57 :: real\<rfloor>"
proof -
  obtain fs' jobs nt where run:
    "create_job_list_and_write_configs gen_force (\<lambda>_. Inr net_one_node) (\<lambda>_. 2000) [scen_A] fs_two
       = Inr (fs', jobs, nt)" and j: "jobs \<noteq> []"
    by (simp add: example_defs)
  have h: "1 \<le> n_threads gen_force \<and> (\<forall>s\<in>set [scen_A]. 0 \<le> iterations (attrib s))"
    by (simp add: gen_force_def scen_A_def)
  have sel: "filter (scenario_selected gen_force) [scen_A] = [scen_A]"
    by (simp add: scenario_selected_def gen_force_def scen_A_def)
  from effective_worker_count [where gen = gen_force and ss = "[scen_A]" and fs = fs_two] run j h
  have "nt = min (n_threads gen_force)
            \<lfloor>memory_available gen_force
               / Min (set (10 ^ 12 # map (scenario_estimate (\<lambda>_. Inr net_one_node) (\<lambda>_. 2000))
                                       (filter (scenario_selected gen_force) [scen_A])))\<rfloor>"
    and "1 \<le> nt" by blast+
  then have "nt = min 4 \<lfloor>100 / 57 :: real\<rfloor>" "1 \<le> nt"
    unfolding sel by (simp_all add: example_estimate gen_force_def)
  with run j h show ?thesis by (auto simp: scen_A_simps)
qed

text \<open>
  Four threads are requested, but the only scenario has an estimate of 57 kB against 50
  kB of available memory: no job is created and the number of threads is clamped to 0.
\<close>

theorem no_worker_when_no_estimate_fits:
  "n_threads gen_small = 4
   \<and> (\<exists>fs'. create_job_list_and_write_configs gen_small (\<lambda>_. Inr net_one_node) (\<lambda>_. 2000)
              [scen_A] fs_two = Inr (fs', [], 0))"
  by (simp add: example_defs)

subsection \<open>Selectors without a dot\<close>

text \<open>
  C10. With a selection list, a scenario \<open>S\<close> counts as selected exactly when some
  element of the list starts with \<open>S.\<close>, and a leak config \<open>L\<close> of it exactly when the list
  holds \<open>S.L\<close> or \<open>S.*\<close>. A list whose elements contain no dot selects no scenario and no
  leak config: the job-list creation then visits no scenario, creates no job and leaves
  the file system as it was. In particular the list \<open>[A]\<close> does not select scenario \<open>A\<close>.
\<close>

theorem bare_selector_selects_nothing:
  "(is_selected (Some sel) S None \<longleftrightarrow> (\<exists>x\<in>set sel. prefix (S @ ''.'') x))
   \<and> (is_selected (Some sel) S (Some L)
        \<longleftrightarrow> S @ ''.'' @ L \<in> set sel \<or> S @ ''.*'' \<in> set sel)
   \<and> ((\<forall>x\<in>set sel. CHR ''.'' \<notin> set x) \<longrightarrow>
        \<not> is_selected (Some sel) S L'
        \<and> create_job_list_and_write_configs (gen\<lparr>selection := Some sel\<rparr>) load_network getsize
            ss fs
          = Inr (fs, [], min (n_threads gen) \<lfloor>memory_available gen / 10 ^ 12\<rfloor>))
   \<and> \<not> is_selected (Some [''A'']) ''A'' L'"
proof (intro conjI impI)
  show "is_selected (Some sel) S None \<longleftrightarrow> (\<exists>x\<in>set sel. prefix (S @ ''.'') x)"
    by (simp add: list_ex_iff)
  show "is_selected (Some sel) S (Some L)
        \<longleftrightarrow> S @ ''.'' @ L \<in> set sel \<or> S @ ''.*'' \<in> set sel"
    by simp
  show "\<not> is_selected (Some [''A'']) ''A'' L'"
    by (rule dotless_not_selected) simp
next
  assume a: "\<forall>x\<in>set sel. CHR ''.'' \<notin> set x"
  then show "\<not> is_selected (Some sel) S L'" by (rule dotless_not_selected)
  from a show "create_job_list_and_write_configs (gen\<lparr>selection := Some sel\<rparr>) load_network
      getsize ss fs
          = Inr (fs, [], min (n_threads gen) \<lfloor>memory_available gen / 10 ^ 12\<rfloor>)"
    by (rule dotless_create)
qed

theorem bare_selector_selects_nothing_witness:
  "CHR ''.'' \<notin> set ''A''
   \<and> \<not> is_selected (Some [''A'']) ''A'' None
   \<and> \<not> is_selected (Some [''A'']) ''A'' (Some ''L1'')
   \<and> create_job_list_and_write_configs (gen_force\<lparr>selection := Some [''A'']\<rparr>)
        (\<lambda>_. Inr net_one_node) (\<lambda>_. 2000) [scen_A] fs_two
      = Inr (fs_two, [], 0)"
  using bare_selector_selects_nothing [where sel = "[''A'']" and S = "''A''" and L = "''L1''"
      and L' = None and gen = gen_force and load_network = "\<lambda>_. Inr net_one_node"
      and getsize = "\<lambda>_. 2000" and ss = "[scen_A]" and fs = fs_two]
    bare_selector_selects_nothing [where sel = "[''A'']" and S = "''A''" and L = "''L1''"
      and L' = "Some ''L1''" and gen = gen_force and load_network = "\<lambda>_. Inr net_one_node"
      and getsize = "\<lambda>_. 2000" and ss = "[scen_A]" and fs = fs_two]
  by (simp add: gen_force_def)

end
